theory Spec2Isabelle
  imports Complex_Main "HOL-Library.Word"
begin

chapter \<open>The embedding of the ingestion pipeline\<close>

section \<open>Python values\<close>

text \<open>
  The ingestion pipeline (\<^verbatim>\<open>dbutils/ingest_data.py\<close>) works on loosely typed
  records: dictionaries from field names to JSON scalars. Exceptions are values of
  \<open>pyerror\<close>; a function that can raise returns \<open>pyerror + 'a\<close>.
\<close>

datatype pyerror = TypeError | ValueError | OverflowError | RecursionError | ApiRequestFailed

text \<open>
  A Python \<^verbatim>\<open>float\<close>: a finite value (a rational, \<open>Finite 0\<close> for \<^verbatim>\<open>0.0\<close>), \<^verbatim>\<open>-0.0\<close>, a NaN or
  an infinity. A raw value is what \<^verbatim>\<open>resp.json()\<close> puts into a flat record: \<^verbatim>\<open>None\<close>, a
  bool, an int, a float or a string. A Python \<^verbatim>\<open>str\<close> is modelled by its UTF-8 bytes, so
  that ASCII text is itself and the Japanese era names are the byte sequences below.
\<close>

datatype pyfloat = Finite rat | NegZero | NaN | PosInf | NegInf

datatype pyval = PNone | PBool bool | PInt int | PFloat pyfloat | PStr string

type_synonym pydict = "string \<Rightarrow> pyval option"

text \<open>
  The two float operations of the interpreter that depend on IEEE-754 binary64 are
  parameters of the model: \<open>round_rat\<close> rounds an exact non-zero value to the nearest
  float (an infinity when it is out of range, a zero when it underflows), and
  \<open>float_repr\<close> is \<^verbatim>\<open>repr\<close> of a float. So is the interpreter's limit on the digits of
  a decimal literal that \<^verbatim>\<open>int\<close> reads, \<open>max_str_digits\<close> (4300 by default from CPython
  3.11 on, 0 for no limit).
\<close>

record float_ops =
  round_rat :: "rat \<Rightarrow> pyfloat"
  float_repr :: "pyfloat \<Rightarrow> string"
  max_str_digits :: nat

text \<open>Truth values: \<^verbatim>\<open>bool(x)\<close>, as \<^verbatim>\<open>if x\<close> and \<^verbatim>\<open>not x\<close> use it.\<close>

fun float_truthy :: "pyfloat \<Rightarrow> bool" where
  "float_truthy (Finite q) = (q \<noteq> 0)"
| "float_truthy NegZero = False"
| "float_truthy NaN = True"
| "float_truthy PosInf = True"
| "float_truthy NegInf = True"

fun truthy :: "pyval \<Rightarrow> bool" where
  "truthy PNone = False"
| "truthy (PBool b) = b"
| "truthy (PInt n) = (n \<noteq> 0)"
| "truthy (PFloat f) = float_truthy f"
| "truthy (PStr s) = (s \<noteq> [])"

text \<open>\<^verbatim>\<open>record.get(key)\<close> and \<^verbatim>\<open>record.get(key, default)\<close>.\<close>

definition dict_get :: "pydict \<Rightarrow> string \<Rightarrow> pyval" where
  "dict_get record key = (case record key of None \<Rightarrow> PNone | Some v \<Rightarrow> v)"

definition dict_get_default :: "pydict \<Rightarrow> string \<Rightarrow> pyval \<Rightarrow> pyval" where
  "dict_get_default record key dflt = (case record key of None \<Rightarrow> dflt | Some v \<Rightarrow> v)"

subsection \<open>Strings\<close>

text \<open>
  \<^verbatim>\<open>len\<close> and slicing count code points: in UTF-8, the bytes that are not continuation
  bytes (\<open>0x80\<close> to \<open>0xBF\<close>).
\<close>

definition is_continuation :: "char \<Rightarrow> bool" where
  "is_continuation c = (128 \<le> (of_char c :: nat) \<and> (of_char c :: nat) < 192)"

definition py_len :: "string \<Rightarrow> nat" where
  "py_len s = length (filter (\<lambda>c. \<not> is_continuation c) s)"

fun py_take :: "nat \<Rightarrow> string \<Rightarrow> string" where
  "py_take n [] = []"
| "py_take n (c # cs) =
     (if is_continuation c then c # py_take n cs
      else (case n of 0 \<Rightarrow> [] | Suc m \<Rightarrow> c # py_take m cs))"

text \<open>
  The number of a byte (for an ASCII character, its code point), and the code points
  of an ASCII literal.
\<close>

definition ord :: "char \<Rightarrow> nat" where
  "ord c = of_char c"

definition ascii :: "string \<Rightarrow> nat list" where
  "ascii s = map ord s"

text \<open>
  The code points of a string, by UTF-8 decoding. The first byte gives the number of
  continuation bytes. Bytes that are not well-formed UTF-8 (a sequence that is too
  short, overlong, a surrogate or beyond \<open>U+10FFFF\<close>) are the encoding of no \<^verbatim>\<open>str\<close>;
  \<open>decode\<close> is total all the same, and gives such a byte the number \<open>0xDC00 + byte\<close> (as
  the \<^verbatim>\<open>surrogateescape\<close> handler does), which is neither a digit nor white space.
\<close>

definition utf8_head :: "nat \<Rightarrow> string \<Rightarrow> nat \<times> nat" where
  "utf8_head n bs =
     (if n < 128 then (n, 0)
      else
        (let k = (if 192 \<le> n \<and> n < 224 then 1 else if 224 \<le> n \<and> n < 240 then 2
                  else if 240 \<le> n \<and> n < 248 then 3 else 0);
             cp = foldl (\<lambda>a c. a * 64 + (ord c - 128))
                    (n - (if k = 1 then 192 else if k = 2 then 224 else 240)) (take k bs)
         in if 0 < k \<and> k \<le> length bs \<and> (\<forall>c\<in>set (take k bs). is_continuation c) \<and>
               (if k = 1 then 128 \<le> cp
                else if k = 2 then 2048 \<le> cp \<and> \<not> (55296 \<le> cp \<and> cp \<le> 57343)
                else 65536 \<le> cp \<and> cp \<le> 1114111)
            then (cp, k) else (56320 + n, 0)))"

function decode :: "string \<Rightarrow> nat list" where
  "decode [] = []"
| "decode (b # bs) = fst (utf8_head (ord b) bs) # decode (drop (snd (utf8_head (ord b) bs)) bs)"
  by pat_completeness auto
termination
  by (relation "measure length") auto

text \<open>
  The character tables of the interpreter (Unicode 14.0, as in CPython 3.11), as
  ranges of code points: the decimal digits (\<^verbatim>\<open>str.isdecimal\<close>; every range is made of
  runs of ten, 0 to 9), the other digits (\<^verbatim>\<open>str.isdigit\<close> holds of both kinds), and
  white space (\<^verbatim>\<open>str.isspace\<close>).
\<close>

definition decimal_ranges :: "(nat \<times> nat) list" where
  "decimal_ranges =
     [(48, 57), (1632, 1641), (1776, 1785), (1984, 1993),
      (2406, 2415), (2534, 2543), (2662, 2671), (2790, 2799),
      (2918, 2927), (3046, 3055), (3174, 3183), (3302, 3311),
      (3430, 3439), (3558, 3567), (3664, 3673), (3792, 3801),
      (3872, 3881), (4160, 4169), (4240, 4249), (6112, 6121),
      (6160, 6169), (6470, 6479), (6608, 6617), (6784, 6793),
      (6800, 6809), (6992, 7001), (7088, 7097), (7232, 7241),
      (7248, 7257), (42528, 42537), (43216, 43225), (43264, 43273),
      (43472, 43481), (43504, 43513), (43600, 43609), (44016, 44025),
      (65296, 65305), (66720, 66729), (68912, 68921), (69734, 69743),
      (69872, 69881), (69942, 69951), (70096, 70105), (70384, 70393),
      (70736, 70745), (70864, 70873), (71248, 71257), (71360, 71369),
      (71472, 71481), (71904, 71913), (72016, 72025), (72784, 72793),
      (73040, 73049), (73120, 73129), (92768, 92777), (92864, 92873),
      (93008, 93017), (120782, 120831), (123200, 123209), (123632, 123641),
      (125264, 125273), (130032, 130041)]"

definition other_digit_ranges :: "(nat \<times> nat) list" where
  "other_digit_ranges =
     [(178, 179), (185, 185), (4969, 4977), (6618, 6618),
      (8304, 8304), (8308, 8313), (8320, 8329), (9312, 9320),
      (9332, 9340), (9352, 9360), (9450, 9450), (9461, 9469),
      (9471, 9471), (10102, 10110), (10112, 10120), (10122, 10130),
      (68160, 68163), (69216, 69224), (69714, 69722), (127232, 127242)]"

definition space_ranges :: "(nat \<times> nat) list" where
  "space_ranges =
     [(9, 13), (28, 32), (133, 133), (160, 160),
      (5760, 5760), (8192, 8202), (8232, 8233), (8239, 8239),
      (8287, 8287), (12288, 12288)]"

definition in_ranges :: "nat \<Rightarrow> (nat \<times> nat) list \<Rightarrow> bool" where
  "in_ranges c rs = (\<exists>r\<in>set rs. fst r \<le> c \<and> c \<le> snd r)"

text \<open>The decimal value of a character (\<open>None\<close> when it is not a decimal digit).\<close>

definition digit_of :: "nat \<Rightarrow> nat option" where
  "digit_of c =
     (case find (\<lambda>r. fst r \<le> c \<and> c \<le> snd r) decimal_ranges of
        None \<Rightarrow> None
      | Some r \<Rightarrow> Some ((c - fst r) mod 10))"

definition isdigit :: "nat \<Rightarrow> bool" where
  "isdigit c = (digit_of c \<noteq> None \<or> in_ranges c other_digit_ranges)"

definition isspace :: "nat \<Rightarrow> bool" where
  "isspace c = in_ranges c space_ranges"

text \<open>\<^verbatim>\<open>s.strip()\<close>, on code points.\<close>

definition strip :: "nat list \<Rightarrow> nat list" where
  "strip s = rev (dropWhile isspace (rev (dropWhile isspace s)))"

text \<open>
  \<^verbatim>\<open>int\<close> and \<^verbatim>\<open>float\<close> first turn their argument into ASCII text: a character below 127
  is kept, any other white space becomes a space and any other decimal digit its ASCII
  digit; at a character that is neither, the text ends in a question mark, which no
  number holds. The ASCII text is then read with the white space of C (tab to carriage
  return, and the space), which does not hold of the separators \<open>0x1C\<close> to \<open>0x1F\<close>.
\<close>

fun to_ascii :: "nat list \<Rightarrow> nat list" where
  "to_ascii [] = []"
| "to_ascii (c # cs) =
     (if c < 127 then c # to_ascii cs
      else if isspace c then 32 # to_ascii cs
      else (case digit_of c of None \<Rightarrow> [63] | Some d \<Rightarrow> (48 + d) # to_ascii cs))"

definition c_isspace :: "nat \<Rightarrow> bool" where
  "c_isspace c = (c \<in> {9, 10, 11, 12, 13, 32})"

definition c_strip :: "nat list \<Rightarrow> nat list" where
  "c_strip s = rev (dropWhile c_isspace (rev (dropWhile c_isspace s)))"

definition ascii_digit :: "nat \<Rightarrow> bool" where
  "ascii_digit c = (48 \<le> c \<and> c \<le> 57)"

definition digits_value :: "nat list \<Rightarrow> nat" where
  "digits_value ds = foldl (\<lambda>acc c. 10 * acc + (c - 48)) 0 ds"

text \<open>
  The digit part of a numeric literal: decimal digits, with single underscores allowed
  between two digits.
\<close>

fun digitpart :: "nat list \<Rightarrow> bool" where
  "digitpart [] = False"
| "digitpart [c] = ascii_digit c"
| "digitpart (c # d # cs) =
     (ascii_digit c \<and> (if d = ord CHR ''_'' then digitpart cs else digitpart (d # cs)))"

text \<open>
  The limit on the digits of a decimal literal (\<^verbatim>\<open>sys.get_int_max_str_digits()\<close>, 0 for
  none): it is checked for more than 640 digits only, and counts neither sign, white
  space nor underscores.
\<close>

definition too_many_digits :: "nat \<Rightarrow> nat \<Rightarrow> bool" where
  "too_many_digits limit n = (640 < n \<and> 0 < limit \<and> limit < n)"

text \<open>
  \<^verbatim>\<open>int(s)\<close> for a string, base 10: \<open>None\<close> is \<^verbatim>\<open>ValueError\<close>. \<open>parse_int\<close> reads the ASCII
  text, \<open>int_of_text\<close> takes the code points, \<open>int_of_str\<close> the string.
\<close>

definition parse_int :: "nat \<Rightarrow> nat list \<Rightarrow> int option" where
  "parse_int limit a =
     (case c_strip a of
        [] \<Rightarrow> None
      | c # cs \<Rightarrow>
          if c = ord CHR ''-'' then
            (if digitpart cs \<and> \<not> too_many_digits limit (length (filter ascii_digit cs))
             then Some (- int (digits_value (filter ascii_digit cs))) else None)
          else if c = ord CHR ''+'' then
            (if digitpart cs \<and> \<not> too_many_digits limit (length (filter ascii_digit cs))
             then Some (int (digits_value (filter ascii_digit cs))) else None)
          else if digitpart (c # cs)
                  \<and> \<not> too_many_digits limit (length (filter ascii_digit (c # cs)))
          then Some (int (digits_value (filter ascii_digit (c # cs))))
          else None)"

definition int_of_text :: "nat \<Rightarrow> nat list \<Rightarrow> int option" where
  "int_of_text limit cs = parse_int limit (to_ascii cs)"

definition int_of_str :: "nat \<Rightarrow> string \<Rightarrow> int option" where
  "int_of_str limit s = int_of_text limit (decode s)"

text \<open>\<^verbatim>\<open>sub in s\<close> for strings.\<close>

fun contains :: "string \<Rightarrow> string \<Rightarrow> bool" where
  "contains [] sub = (sub = [])"
| "contains (c # cs) sub = (take (length sub) (c # cs) = sub \<or> contains cs sub)"

text \<open>\<^verbatim>\<open>str(x)\<close>.\<close>

fun dec_digits :: "nat \<Rightarrow> string" where
  "dec_digits n =
     (if n < 10 then [char_of (48 + n)]
      else dec_digits (n div 10) @ [char_of (48 + n mod 10)])"

declare dec_digits.simps [simp del]

definition str_of_int :: "int \<Rightarrow> string" where
  "str_of_int n = (if n < 0 then CHR ''-'' # dec_digits (nat (- n)) else dec_digits (nat n))"

fun py_str :: "float_ops \<Rightarrow> pyval \<Rightarrow> string" where
  "py_str fl PNone = ''None''"
| "py_str fl (PBool b) = (if b then ''True'' else ''False'')"
| "py_str fl (PInt n) = str_of_int n"
| "py_str fl (PFloat f) = float_repr fl f"
| "py_str fl (PStr s) = s"

text \<open>
  An instance of the float operations for running the model on concrete inputs: no
  rounding (exact for the values that are floats already), and \<^verbatim>\<open>repr\<close> as CPython
  prints the special values and the integral floats below \<open>10\<^sup>1\<^sup>6\<close>; other values are
  outside this instance (numerator and denominator stand in for them). The limit on
  decimal literals is CPython's default.
\<close>

definition example_floats :: float_ops where
  "example_floats =
     \<lparr>round_rat = Finite,
      float_repr = (\<lambda>f. case f of
          Finite q \<Rightarrow>
            if of_int \<lfloor>q\<rfloor> = q then str_of_int \<lfloor>q\<rfloor> @ ''.0''
            else str_of_int (fst (quotient_of q)) @ ''/'' @ str_of_int (snd (quotient_of q))
        | NegZero \<Rightarrow> ''-0.0''
        | NaN \<Rightarrow> ''nan''
        | PosInf \<Rightarrow> ''inf''
        | NegInf \<Rightarrow> ''-inf''),
      max_str_digits = 4300\<rparr>"

text \<open>\<^verbatim>\<open>int(x)\<close>: a float is truncated towards zero.\<close>

fun int_of_float :: "pyfloat \<Rightarrow> pyerror + int" where
  "int_of_float (Finite q) = Inr (if 0 \<le> q then \<lfloor>q\<rfloor> else \<lceil>q\<rceil>)"
| "int_of_float NegZero = Inr 0"
| "int_of_float NaN = Inl ValueError"
| "int_of_float PosInf = Inl OverflowError"
| "int_of_float NegInf = Inl OverflowError"

fun py_int :: "float_ops \<Rightarrow> pyval \<Rightarrow> pyerror + int" where
  "py_int fl PNone = Inl TypeError"
| "py_int fl (PBool b) = Inr (if b then 1 else 0)"
| "py_int fl (PInt n) = Inr n"
| "py_int fl (PFloat f) = int_of_float f"
| "py_int fl (PStr s) =
     (case int_of_str (max_str_digits fl) s of None \<Rightarrow> Inl ValueError | Some n \<Rightarrow> Inr n)"

section \<open>The MLIT client and the period probe\<close>

text \<open>
  What the HTTP layer hands to \<^verbatim>\<open>get_transactions\<close>: a reply with its status code and
  the \<^verbatim>\<open>data\<close> entry of the JSON body (\<open>None\<close> when the body has no such key), or a
  \<^verbatim>\<open>requests.RequestException\<close> (connection error, timeout, undecodable body).
\<close>

datatype 'r http_reply = Reply nat "'r list option" | RequestException

text \<open>
  \<^verbatim>\<open>get_transactions\<close>: 400 and 404 give \<^verbatim>\<open>None\<close>; \<^verbatim>\<open>raise_for_status\<close> turns every other
  4xx and 5xx into an exception, which is re-raised as \<^verbatim>\<open>Exception("API request failed")\<close>;
  otherwise the result is \<^verbatim>\<open>data.get("data", [])\<close>.
\<close>

definition get_transactions :: "'r http_reply \<Rightarrow> pyerror + 'r list option" where
  "get_transactions resp =
     (case resp of
        RequestException \<Rightarrow> Inl ApiRequestFailed
      | Reply code body \<Rightarrow>
          if code = 400 \<or> code = 404 then Inr None
          else if 400 \<le> code \<and> code < 600 then Inl ApiRequestFailed
          else Inr (Some (case body of None \<Rightarrow> [] | Some rows \<Rightarrow> rows)))"

text \<open>
  The upstream server: the reply to the \<open>n\<close>-th request of a run, for a year, an area
  code and a quarter. The request list \<open>reqs\<close> of a run holds the (year, quarter) requests made so
  far, oldest first.
\<close>

type_synonym 'r mlit_server = "nat \<Rightarrow> int \<Rightarrow> string \<Rightarrow> int \<Rightarrow> 'r http_reply"

text \<open>
  The body of \<^verbatim>\<open>for _ in range(4)\<close> in \<^verbatim>\<open>find_latest_available_quarter\<close>, with the number
  of iterations left. The result is the pair returned (\<open>None\<close> for \<^verbatim>\<open>(None, None)\<close>) and
  the request list.
\<close>

fun probe_loop ::
  "'r mlit_server \<Rightarrow> nat \<Rightarrow> (int \<times> int) list \<Rightarrow> int \<Rightarrow> int
     \<Rightarrow> pyerror + ((int \<times> int) option \<times> (int \<times> int) list)" where
  "probe_loop srv 0 reqs year quarter = Inr (None, reqs)"
| "probe_loop srv (Suc k) reqs year quarter =
     (case get_transactions (srv (length reqs) year ''13'' quarter) of
        Inl e \<Rightarrow> Inl e
      | Inr (Some rows) \<Rightarrow> Inr (Some (year, quarter), reqs @ [(year, quarter)])
      | Inr None \<Rightarrow>
          (if quarter - 1 = 0 then probe_loop srv k (reqs @ [(year, quarter)]) (year - 1) 4
           else probe_loop srv k (reqs @ [(year, quarter)]) year (quarter - 1)))"

definition find_latest_available_quarter ::
  "'r mlit_server \<Rightarrow> (int \<times> int) list \<Rightarrow> int \<Rightarrow> int
     \<Rightarrow> pyerror + ((int \<times> int) option \<times> (int \<times> int) list)" where
  "find_latest_available_quarter srv reqs now_year now_month =
     (let quarter = (now_month - 1) div 3 in
      if quarter = 0 then probe_loop srv 4 reqs (now_year - 1) 4
      else probe_loop srv 4 reqs now_year quarter)"

text \<open>
  The specification's words, for comparison: the most recently completed calendar
  quarter relative to a date, and the quarter before a quarter.
\<close>

definition spec_last_completed_quarter :: "int \<Rightarrow> int \<Rightarrow> int \<times> int" where
  "spec_last_completed_quarter year month =
     (if month \<le> 3 then (year - 1, 4)
      else if month \<le> 6 then (year, 1)
      else if month \<le> 9 then (year, 2)
      else (year, 3))"

definition spec_previous_quarter :: "int \<times> int \<Rightarrow> int \<times> int" where
  "spec_previous_quarter p = (if snd p = 1 then (fst p - 1, 4) else (fst p, snd p - 1))"

definition spec_probe_sequence :: "int \<Rightarrow> int \<Rightarrow> (int \<times> int) list" where
  "spec_probe_sequence year month =
     (let a = spec_last_completed_quarter year month;
          b = spec_previous_quarter a;
          c = spec_previous_quarter b;
          d = spec_previous_quarter c
      in [a, b, c, d])"

definition unavailable_reply :: "'r http_reply \<Rightarrow> bool" where
  "unavailable_reply resp = (get_transactions resp = Inr None)"

definition data_reply :: "'r http_reply \<Rightarrow> bool" where
  "data_reply resp = (case get_transactions resp of Inr (Some rows) \<Rightarrow> True | _ \<Rightarrow> False)"

definition reply_at :: "'r mlit_server \<Rightarrow> nat \<Rightarrow> int \<times> int \<Rightarrow> 'r http_reply" where
  "reply_at srv n p = srv n (fst p) ''13'' (snd p)"

section \<open>The FX rate fetch\<close>

text \<open>
  \<^verbatim>\<open>fetch_fx_rate(rate_date, currency, max_retries=3)\<close> asks the Frankfurter API for the
  rate of one day. A reply carries its status code and the \<^verbatim>\<open>rates\<close> object of the JSON
  body (\<open>None\<close> when the body has no such key); the other outcome of a request is a
  \<^verbatim>\<open>requests.RequestException\<close>. A date is its proleptic Gregorian ordinal
  (\<^verbatim>\<open>date.toordinal()\<close>, 1 for \<^verbatim>\<open>date.min\<close>), so that \<^verbatim>\<open>rate_date - timedelta(days=1)\<close> is
  \<open>rate_date - 1\<close> and raises \<^verbatim>\<open>OverflowError\<close> below \<^verbatim>\<open>date.min\<close>. The server gives the reply
  to the \<open>n\<close>-th request of a run; \<open>reqs\<close> lists the dates requested so far.
\<close>

datatype fx_reply = FxReply nat "(string \<times> rat) list option" | FxRequestException

type_synonym fx_server = "nat \<Rightarrow> int \<Rightarrow> string \<Rightarrow> fx_reply"

text \<open>
  The loop \<^verbatim>\<open>for attempt in range(max_retries)\<close> from iteration \<open>attempt\<close> on. A 404 returns
  the result of the nested call \<^verbatim>\<open>fetch_fx_rate(alt_date, currency, max_retries=1)\<close>;
  \<open>frames\<close> is the number of nested calls the interpreter's recursion limit still allows.
  On an exception the source sleeps and continues when \<^verbatim>\<open>attempt < max_retries - 1\<close> and
  prints a warning otherwise; both ways the loop goes on to its next iteration. A 200
  without the currency and any other status fall through to the next iteration too.
\<close>

function fx_attempts ::
  "fx_server \<Rightarrow> nat \<Rightarrow> int list \<Rightarrow> int \<Rightarrow> string \<Rightarrow> nat \<Rightarrow> nat
     \<Rightarrow> pyerror + (rat option \<times> int list)" where
  "fx_attempts srv frames reqs rate_date currency attempt max_retries =
     (if max_retries \<le> attempt then Inr (None, reqs)
      else
        (case srv (length reqs) rate_date currency of
           FxRequestException \<Rightarrow>
             (if attempt < max_retries - 1
              then fx_attempts srv frames (reqs @ [rate_date]) rate_date currency (Suc attempt) max_retries
              else fx_attempts srv frames (reqs @ [rate_date]) rate_date currency (Suc attempt) max_retries)
         | FxReply code body \<Rightarrow>
             if code = 200 then
               (case body of
                  None \<Rightarrow>
                    fx_attempts srv frames (reqs @ [rate_date]) rate_date currency (Suc attempt) max_retries
                | Some rates \<Rightarrow>
                    (case map_of rates currency of
                       Some rate \<Rightarrow> Inr (Some rate, reqs @ [rate_date])
                     | None \<Rightarrow>
                         fx_attempts srv frames (reqs @ [rate_date]) rate_date currency (Suc attempt)
                           max_retries))
             else if code = 404 then
               (if rate_date - 1 < 1 then Inl OverflowError
                else
                  (case frames of
                     0 \<Rightarrow> Inl RecursionError
                   | Suc deeper \<Rightarrow>
                       fx_attempts srv deeper (reqs @ [rate_date]) (rate_date - 1) currency 0 1))
             else fx_attempts srv frames (reqs @ [rate_date]) rate_date currency (Suc attempt) max_retries))"
  by pat_completeness auto
termination
  by (relation "measures [\<lambda>(srv, frames, reqs, rate_date, currency, attempt, max_retries). frames,
                          \<lambda>(srv, frames, reqs, rate_date, currency, attempt, max_retries). max_retries - attempt]")
    auto

definition fetch_fx_rate ::
  "fx_server \<Rightarrow> nat \<Rightarrow> int list \<Rightarrow> int \<Rightarrow> string \<Rightarrow> nat \<Rightarrow> pyerror + (rat option \<times> int list)" where
  "fetch_fx_rate srv frames reqs rate_date currency max_retries =
     fx_attempts srv frames reqs rate_date currency 0 max_retries"

text \<open>The replies that are neither a rate for the currency nor a not-found.\<close>

definition fx_rate_of :: "fx_reply \<Rightarrow> string \<Rightarrow> rat option" where
  "fx_rate_of resp currency =
     (case resp of
        FxReply code (Some rates) \<Rightarrow> if code = 200 then map_of rates currency else None
      | _ \<Rightarrow> None)"

definition fx_not_found :: "fx_reply \<Rightarrow> bool" where
  "fx_not_found resp = (case resp of FxReply code body \<Rightarrow> code = 404 | _ \<Rightarrow> False)"

text \<open>The days \<open>d, d - 1, \<dots>, d - (n - 1)\<close>.\<close>

definition days_back :: "int \<Rightarrow> nat \<Rightarrow> int list" where
  "days_back d n = map (\<lambda>i. d - int i) [0..<n]"

text \<open>
  An example server: 15 November 2020 (ordinal 737744) is a Sunday; the server has no
  entry for it nor for Saturday the 14th, and has a USD rate for Friday the 13th.
\<close>

definition weekend_server :: fx_server where
  "weekend_server n date currency =
     (if date = 737742 then FxReply 200 (Some [(''USD'', 1 / 104)]) else FxReply 404 None)"

text \<open>A server that has no entry for the Sunday and fails with a 500 on the Saturday.\<close>

definition failing_server :: fx_server where
  "failing_server n date currency =
     (if date = 737743 then FxReply 500 None else FxReply 404 None)"

section \<open>The record transformer\<close>

subsection \<open>\<^verbatim>\<open>parse_building_year\<close>\<close>

text \<open>The era names in kanji (Reiwa, Heisei, Showa), as UTF-8.\<close>

definition reiwa_kanji :: string where
  "reiwa_kanji = [CHR 0xE4, CHR 0xBB, CHR 0xA4, CHR 0xE5, CHR 0x92, CHR 0x8C]"

definition heisei_kanji :: string where
  "heisei_kanji = [CHR 0xE5, CHR 0xB9, CHR 0xB3, CHR 0xE6, CHR 0x88, CHR 0x90]"

definition showa_kanji :: string where
  "showa_kanji = [CHR 0xE6, CHR 0x98, CHR 0xAD, CHR 0xE5, CHR 0x92, CHR 0x8C]"

text \<open>
  \<^verbatim>\<open>int(''.join(filter(str.isdigit, year_str)))\<close>: \<open>None\<close> is the \<^verbatim>\<open>ValueError\<close> of the empty
  string, of a digit that is not a decimal digit (a superscript two) and of too many
  digits.
\<close>

definition digits_number :: "nat \<Rightarrow> string \<Rightarrow> int option" where
  "digits_number limit s = int_of_text limit (filter isdigit (decode s))"

text \<open>
  The \<^verbatim>\<open>if\<close>/\<^verbatim>\<open>elif\<close> chain over the era markers. A branch whose conversion raises
  \<^verbatim>\<open>ValueError\<close> passes and the function returns \<^verbatim>\<open>None\<close>; the later branches are not tried.
\<close>

definition era_year :: "nat \<Rightarrow> string \<Rightarrow> int option" where
  "era_year limit year_str =
     (if contains year_str reiwa_kanji \<or> contains year_str ''Reiwa'' then
        (case digits_number limit year_str of Some num \<Rightarrow> Some (2018 + num) | None \<Rightarrow> None)
      else if contains year_str heisei_kanji \<or> contains year_str ''Heisei'' then
        (case digits_number limit year_str of Some num \<Rightarrow> Some (1988 + num) | None \<Rightarrow> None)
      else if contains year_str showa_kanji \<or> contains year_str ''Showa'' then
        (case digits_number limit year_str of Some num \<Rightarrow> Some (1925 + num) | None \<Rightarrow> None)
      else None)"

text \<open>
  The specification's table of era markers and offsets, in the order in which the
  source tests them.
\<close>

definition spec_era_offset :: "string \<Rightarrow> int option" where
  "spec_era_offset s =
     (if contains s reiwa_kanji \<or> contains s ''Reiwa'' then Some 2018
      else if contains s heisei_kanji \<or> contains s ''Heisei'' then Some 1988
      else if contains s showa_kanji \<or> contains s ''Showa'' then Some 1925
      else None)"

text \<open>
  The specification's plain four-digit year (four ASCII digits), and the decimal number
  that a run of decimal digits writes.
\<close>

definition spec_plain_year :: "string \<Rightarrow> bool" where
  "spec_plain_year s = (length s = 4 \<and> list_all (\<lambda>c. ascii_digit (ord c)) s)"

definition spec_numeral :: "nat list \<Rightarrow> nat" where
  "spec_numeral ds =
     foldl (\<lambda>acc c. 10 * acc + (case digit_of c of None \<Rightarrow> 0 | Some d \<Rightarrow> d)) 0 ds"

text \<open>
  Digits beyond ASCII, as UTF-8: the year 2005 in full-width digits, the second year of
  Heisei written with a full-width digit and the kanji for year, and a superscript two.
\<close>

definition fullwidth_2005 :: string where
  "fullwidth_2005 =
     [CHR 0xEF, CHR 0xBC, CHR 0x92, CHR 0xEF, CHR 0xBC, CHR 0x90,
      CHR 0xEF, CHR 0xBC, CHR 0x90, CHR 0xEF, CHR 0xBC, CHR 0x95]"

definition heisei_2_nen :: string where
  "heisei_2_nen = heisei_kanji @ [CHR 0xEF, CHR 0xBC, CHR 0x92, CHR 0xE5, CHR 0xB9, CHR 0xB4]"

definition superscript_two :: string where
  "superscript_two = [CHR 0xC2, CHR 0xB2]"

text \<open>
  \<^verbatim>\<open>parse_building_year\<close>. The \<^verbatim>\<open>try\<close> around \<^verbatim>\<open>int(year_str)\<close> catches \<^verbatim>\<open>ValueError\<close> and
  \<^verbatim>\<open>TypeError\<close> only, so the \<^verbatim>\<open>OverflowError\<close> of an infinite float escapes.
\<close>

definition parse_building_year :: "float_ops \<Rightarrow> pyval \<Rightarrow> pyerror + int option" where
  "parse_building_year fl year_str =
     (if \<not> truthy year_str then Inr None
      else
        (case py_int fl year_str of
           Inr year \<Rightarrow>
             if 1900 \<le> year \<and> year \<le> 2100 then Inr (Some year)
             else Inr (era_year (max_str_digits fl) (py_str fl year_str))
         | Inl e \<Rightarrow>
             if e = ValueError \<or> e = TypeError
             then Inr (era_year (max_str_digits fl) (py_str fl year_str))
             else Inl e))"

subsection \<open>\<^verbatim>\<open>parse_numeric\<close>\<close>

text \<open>
  \<^verbatim>\<open>float(s)\<close> for a string: the argument is turned into ASCII text as for \<^verbatim>\<open>int\<close>, and
  the text is read after the grammar of the language reference: optional sign, then
  \<^verbatim>\<open>inf\<close>, \<^verbatim>\<open>infinity\<close> or \<^verbatim>\<open>nan\<close> in any letter case, or a decimal number with an
  optional fraction and an optional exponent. \<open>None\<close> is \<^verbatim>\<open>ValueError\<close>.
\<close>

definition lower :: "nat \<Rightarrow> nat" where
  "lower c = (if 65 \<le> c \<and> c \<le> 90 then c + 32 else c)"

definition split_at :: "(nat \<Rightarrow> bool) \<Rightarrow> nat list \<Rightarrow> nat list \<times> nat list option" where
  "split_at P s =
     (case dropWhile (\<lambda>c. \<not> P c) s of
        [] \<Rightarrow> (s, None)
      | c # rest \<Rightarrow> (takeWhile (\<lambda>c. \<not> P c) s, Some rest))"

definition signed_digits :: "nat list \<Rightarrow> int option" where
  "signed_digits s =
     (case s of
        [] \<Rightarrow> None
      | c # cs \<Rightarrow>
          if c = ord CHR ''-'' then
            (if digitpart cs then Some (- int (digits_value (filter ascii_digit cs))) else None)
          else if c = ord CHR ''+'' then
            (if digitpart cs then Some (int (digits_value (filter ascii_digit cs))) else None)
          else if digitpart (c # cs) then Some (int (digits_value (filter ascii_digit (c # cs))))
          else None)"

definition decimal_value :: "nat list \<Rightarrow> rat option" where
  "decimal_value u =
     (case split_at (\<lambda>c. c = ord CHR ''e'' \<or> c = ord CHR ''E'') u of
        (mantissa, ex) \<Rightarrow>
          (case split_at (\<lambda>c. c = ord CHR ''.'') mantissa of
             (ip, fp) \<Rightarrow>
               (let fpart = (case fp of None \<Rightarrow> [] | Some f \<Rightarrow> f) in
                if \<not> ((ip = [] \<or> digitpart ip) \<and> (fpart = [] \<or> digitpart fpart)
                      \<and> (ip \<noteq> [] \<or> fpart \<noteq> []))
                then None
                else
                  (case (case ex of None \<Rightarrow> Some 0 | Some t \<Rightarrow> signed_digits t) of
                     None \<Rightarrow> None
                   | Some e \<Rightarrow>
                       Some (of_nat (digits_value (filter ascii_digit (ip @ fpart)))
                             / 10 ^ length (filter ascii_digit fpart)
                             * (if 0 \<le> e then 10 ^ nat e else 1 / 10 ^ nat (- e)))))))"

definition parse_float :: "float_ops \<Rightarrow> nat list \<Rightarrow> pyfloat option" where
  "parse_float fl a =
     (let t = c_strip a;
          neg = (t \<noteq> [] \<and> hd t = ord CHR ''-'');
          u = (if t \<noteq> [] \<and> (hd t = ord CHR ''-'' \<or> hd t = ord CHR ''+'') then tl t else t);
          l = map lower u
      in if l = ascii ''inf'' \<or> l = ascii ''infinity'' then Some (if neg then NegInf else PosInf)
         else if l = ascii ''nan'' then Some NaN
         else
           (case decimal_value u of
              None \<Rightarrow> None
            | Some q \<Rightarrow>
                Some (if q = 0 then (if neg then NegZero else Finite 0)
                      else round_rat fl (if neg then - q else q))))"

definition float_of_text :: "float_ops \<Rightarrow> nat list \<Rightarrow> pyfloat option" where
  "float_of_text fl cs = parse_float fl (to_ascii cs)"

text \<open>\<^verbatim>\<open>float(n)\<close> for an int: \<^verbatim>\<open>OverflowError\<close> when the value is out of range.\<close>

definition float_of_int :: "float_ops \<Rightarrow> int \<Rightarrow> pyerror + pyfloat" where
  "float_of_int fl n =
     (if n = 0 then Inr (Finite 0)
      else
        (case round_rat fl (of_int n) of
           PosInf \<Rightarrow> Inl OverflowError
         | NegInf \<Rightarrow> Inl OverflowError
         | f \<Rightarrow> Inr f))"

text \<open>
  \<^verbatim>\<open>parse_numeric\<close>. A bool is an \<^verbatim>\<open>int\<close> for \<^verbatim>\<open>isinstance\<close>. The conversion of a typed number
  stands outside the \<^verbatim>\<open>try\<close>; inside it, \<^verbatim>\<open>float\<close> of the cleaned text raises \<^verbatim>\<open>ValueError\<close>
  only, which is caught. \<open>cleaned\<close> holds the code points of the cleaned text.
\<close>

definition parse_numeric :: "float_ops \<Rightarrow> pyval \<Rightarrow> pyerror + pyfloat option" where
  "parse_numeric fl v =
     (if v = PNone \<or> v = PStr [] then Inr None
      else
        (case v of
           PBool b \<Rightarrow>
             (case float_of_int fl (if b then 1 else 0) of Inl e \<Rightarrow> Inl e | Inr f \<Rightarrow> Inr (Some f))
         | PInt n \<Rightarrow> (case float_of_int fl n of Inl e \<Rightarrow> Inl e | Inr f \<Rightarrow> Inr (Some f))
         | PFloat f \<Rightarrow> Inr (Some f)
         | _ \<Rightarrow>
             (let cleaned = strip (filter (\<lambda>c. c \<noteq> ord CHR '','') (decode (py_str fl v))) in
              if cleaned \<noteq> [] then
                (case float_of_text fl cleaned of Some f \<Rightarrow> Inr (Some f) | None \<Rightarrow> Inr None)
              else Inr None)))"

subsection \<open>SHA-256 and \<^verbatim>\<open>generate_record_hash\<close>\<close>

text \<open>
  \<^verbatim>\<open>hashlib.sha256(data).hexdigest()\<close>, after FIPS 180-4: the message is padded to a
  multiple of 64 bytes, and each block of sixteen big-endian 32-bit words updates a state
  of eight words through 64 rounds.
\<close>

unbundle bit_operations_syntax

type_synonym word32 = "32 word"

type_synonym sha_state =
  "word32 \<times> word32 \<times> word32 \<times> word32 \<times> word32 \<times> word32 \<times> word32 \<times> word32"

definition ch :: "word32 \<Rightarrow> word32 \<Rightarrow> word32 \<Rightarrow> word32" where
  "ch x y z = (x AND y) XOR (NOT x AND z)"

definition maj :: "word32 \<Rightarrow> word32 \<Rightarrow> word32 \<Rightarrow> word32" where
  "maj x y z = (x AND y) XOR (x AND z) XOR (y AND z)"

definition big_sigma0 :: "word32 \<Rightarrow> word32" where
  "big_sigma0 x = word_rotr 2 x XOR word_rotr 13 x XOR word_rotr 22 x"

definition big_sigma1 :: "word32 \<Rightarrow> word32" where
  "big_sigma1 x = word_rotr 6 x XOR word_rotr 11 x XOR word_rotr 25 x"

definition small_sigma0 :: "word32 \<Rightarrow> word32" where
  "small_sigma0 x = word_rotr 7 x XOR word_rotr 18 x XOR drop_bit 3 x"

definition small_sigma1 :: "word32 \<Rightarrow> word32" where
  "small_sigma1 x = word_rotr 17 x XOR word_rotr 19 x XOR drop_bit 10 x"

definition sha256_k :: "word32 list" where
  "sha256_k =
     [1116352408, 1899447441, 3049323471, 3921009573, 961987163, 1508970993,
      2453635748, 2870763221, 3624381080, 310598401, 607225278, 1426881987,
      1925078388, 2162078206, 2614888103, 3248222580, 3835390401, 4022224774,
      264347078, 604807628, 770255983, 1249150122, 1555081692, 1996064986,
      2554220882, 2821834349, 2952996808, 3210313671, 3336571891, 3584528711,
      113926993, 338241895, 666307205, 773529912, 1294757372, 1396182291,
      1695183700, 1986661051, 2177026350, 2456956037, 2730485921, 2820302411,
      3259730800, 3345764771, 3516065817, 3600352804, 4094571909, 275423344,
      430227734, 506948616, 659060556, 883997877, 958139571, 1322822218,
      1537002063, 1747873779, 1955562222, 2024104815, 2227730452, 2361852424,
      2428436474, 2756734187, 3204031479, 3329325298]"

definition sha256_init :: sha_state where
  "sha256_init =
     (1779033703, 3144134277, 1013904242, 2773480762,
      1359893119, 2600822924, 528734635, 1541459225)"

definition sha256_pad :: "nat list \<Rightarrow> nat list" where
  "sha256_pad msg =
     msg @ [128] @ replicate ((119 - length msg mod 64) mod 64) 0
       @ map (\<lambda>i. (8 * length msg) div 256 ^ (7 - i) mod 256) [0..<8]"

fun be_words :: "nat list \<Rightarrow> word32 list" where
  "be_words (a # b # c # d # bytes) =
     word_of_nat (((a * 256 + b) * 256 + c) * 256 + d) # be_words bytes"
| "be_words bytes = []"

fun extend_schedule :: "nat \<Rightarrow> word32 list \<Rightarrow> word32 list" where
  "extend_schedule 0 w = w"
| "extend_schedule (Suc n) w =
     extend_schedule n
       (w @ [small_sigma1 (w ! (length w - 2)) + w ! (length w - 7)
             + small_sigma0 (w ! (length w - 15)) + w ! (length w - 16)])"

definition sha256_round :: "sha_state \<Rightarrow> word32 \<times> word32 \<Rightarrow> sha_state" where
  "sha256_round st kw =
     (case st of (a, b, c, d, e, f, g, h) \<Rightarrow>
        (let t1 = h + big_sigma1 e + ch e f g + fst kw + snd kw;
             t2 = big_sigma0 a + maj a b c
         in (t1 + t2, a, b, c, d + t1, e, f, g)))"

definition sha256_block :: "sha_state \<Rightarrow> nat list \<Rightarrow> sha_state" where
  "sha256_block st block =
     (case st of (a, b, c, d, e, f, g, h) \<Rightarrow>
        (case foldl sha256_round st (zip sha256_k (extend_schedule 48 (be_words block))) of
           (a', b', c', d', e', f', g', h') \<Rightarrow>
             (a + a', b + b', c + c', d + d', e + e', f + f', g + g', h + h')))"

fun sha256_blocks :: "nat \<Rightarrow> sha_state \<Rightarrow> nat list \<Rightarrow> sha_state" where
  "sha256_blocks 0 st bytes = st"
| "sha256_blocks (Suc n) st bytes = sha256_blocks n (sha256_block st (take 64 bytes)) (drop 64 bytes)"

definition hex_word :: "word32 \<Rightarrow> string" where
  "hex_word w = map (\<lambda>i. ''0123456789abcdef'' ! unat (drop_bit (4 * i) w AND 15)) [7, 6, 5, 4, 3, 2, 1, 0]"

definition sha256_hexdigest :: "string \<Rightarrow> string" where
  "sha256_hexdigest data =
     (let bytes = sha256_pad (map of_char data) in
      case sha256_blocks (length bytes div 64) sha256_init bytes of
        (a, b, c, d, e, f, g, h) \<Rightarrow> concat (map hex_word [a, b, c, d, e, f, g, h]))"

text \<open>\<^verbatim>\<open>"|".join(...)\<close>.\<close>

fun join :: "string \<Rightarrow> string list \<Rightarrow> string" where
  "join sep [] = []"
| "join sep [x] = x"
| "join sep (x # y # ys) = x @ sep @ join sep (y # ys)"

definition key_fields :: "pydict \<Rightarrow> pyval list" where
  "key_fields record =
     [dict_get record ''MunicipalityCode'',
      dict_get record ''DistrictName'',
      dict_get record ''TradePrice'',
      dict_get record ''Area'',
      dict_get record ''Period'',
      dict_get record ''BuildingYear'',
      dict_get record ''Type'']"

definition key_string :: "float_ops \<Rightarrow> pydict \<Rightarrow> string" where
  "key_string fl record = join ''|'' (map (py_str fl) (key_fields record))"

definition generate_record_hash :: "float_ops \<Rightarrow> pydict \<Rightarrow> string" where
  "generate_record_hash fl record = take 32 (sha256_hexdigest (key_string fl record))"

subsection \<open>\<^verbatim>\<open>transform_record\<close>\<close>

definition PROPERTY_TYPE_MAP :: "(string \<times> int) list" where
  "PROPERTY_TYPE_MAP =
     [(''Pre-owned Condominiums'', 1),
      (''Pre-owned Condominiums, etc.'', 1),
      (''Residential Land'', 2),
      (''Residential Land(Land Only)'', 2),
      (''Residential Land and Building'', 3),
      (''Residential Land(Land and Building)'', 3),
      (''Agricultural Land'', 4),
      (''Forest Land'', 5),
      (''Pre-owned House'', 6),
      (''Office'', 7),
      (''Shop'', 8),
      (''Warehouse'', 9),
      (''Factory'', 10)]"

text \<open>\<^verbatim>\<open>PROPERTY_TYPE_MAP.get(x)\<close>: the keys are strings, so no other value has an entry.\<close>

definition property_type_lookup :: "pyval \<Rightarrow> pyval" where
  "property_type_lookup x =
     (case x of
        PStr s \<Rightarrow> (case map_of PROPERTY_TYPE_MAP s of None \<Rightarrow> PNone | Some n \<Rightarrow> PInt n)
      | _ \<Rightarrow> PNone)"

text \<open>
  \<^verbatim>\<open>len(x)\<close> and \<^verbatim>\<open>x[:2]\<close>: of the raw values only a string has a length or a slice, the
  others raise \<^verbatim>\<open>TypeError\<close>.
\<close>

definition len_of :: "pyval \<Rightarrow> pyerror + nat" where
  "len_of x = (case x of PStr s \<Rightarrow> Inr (py_len s) | _ \<Rightarrow> Inl TypeError)"

definition slice2 :: "pyval \<Rightarrow> pyerror + pyval" where
  "slice2 x = (case x of PStr s \<Rightarrow> Inr (PStr (py_take 2 s)) | _ \<Rightarrow> Inl TypeError)"

text \<open>\<^verbatim>\<open>int(x) if x else None\<close> for the result of \<^verbatim>\<open>parse_numeric\<close>.\<close>

definition int_if_truthy :: "pyfloat option \<Rightarrow> pyerror + pyval" where
  "int_if_truthy x =
     (case x of
        None \<Rightarrow> Inr PNone
      | Some f \<Rightarrow>
          if float_truthy f then (case int_of_float f of Inl e \<Rightarrow> Inl e | Inr n \<Rightarrow> Inr (PInt n))
          else Inr PNone)"

definition float_value :: "pyfloat option \<Rightarrow> pyval" where
  "float_value x = (case x of None \<Rightarrow> PNone | Some f \<Rightarrow> PFloat f)"

definition int_value :: "int option \<Rightarrow> pyval" where
  "int_value x = (case x of None \<Rightarrow> PNone | Some n \<Rightarrow> PInt n)"

text \<open>Sequencing: the first exception raised ends the function.\<close>

definition bind_err :: "pyerror + 'a \<Rightarrow> ('a \<Rightarrow> pyerror + 'b) \<Rightarrow> pyerror + 'b" where
  "bind_err m f = (case m of Inl e \<Rightarrow> Inl e | Inr x \<Rightarrow> f x)"

text \<open>
  \<^verbatim>\<open>transform_record(record, prefecture_code, year, quarter)\<close>, statement by statement;
  the entries of the returned dictionary are evaluated in the order written.
\<close>

definition transform_record ::
  "float_ops \<Rightarrow> pydict \<Rightarrow> string \<Rightarrow> int \<Rightarrow> int option \<Rightarrow> pyerror + pydict" where
  "transform_record fl record prefecture_code year quarter =
     (let source_hash = generate_record_hash fl record;
          muni_code = dict_get_default record ''MunicipalityCode'' (PStr [])
      in
      bind_err
        (if truthy muni_code
         then bind_err (len_of muni_code) (\<lambda>n. Inr (if n = 5 then muni_code else PNone))
         else Inr PNone) (\<lambda>municipality_code.
      let property_type_raw = dict_get_default record ''Type'' (PStr []);
          property_type_id = property_type_lookup property_type_raw
      in
      bind_err (parse_numeric fl (dict_get record ''TradePrice'')) (\<lambda>trade_price.
      bind_err (parse_numeric fl (dict_get record ''UnitPrice'')) (\<lambda>unit_price.
      bind_err (parse_numeric fl (dict_get record ''Area'')) (\<lambda>area_m2.
      bind_err (parse_numeric fl (dict_get record ''TotalFloorArea'')) (\<lambda>total_floor_area.
      bind_err (parse_numeric fl (dict_get record ''Frontage'')) (\<lambda>frontage.
      bind_err (parse_numeric fl (dict_get record ''Breadth'')) (\<lambda>road_width.
      bind_err (parse_numeric fl (dict_get record ''CoverageRatio'')) (\<lambda>coverage_ratio.
      bind_err (parse_numeric fl (dict_get record ''FloorAreaRatio'')) (\<lambda>floor_area_ratio.
      bind_err (parse_building_year fl (dict_get record ''BuildingYear'')) (\<lambda>building_year.
      bind_err
        (if truthy (dict_get record ''PriceCategory'')
         then slice2 (dict_get_default record ''PriceCategory'' (PStr ''01''))
         else Inr (PStr ''01'')) (\<lambda>price_classification.
      bind_err (int_if_truthy trade_price) (\<lambda>trade_price_int.
      bind_err (int_if_truthy unit_price) (\<lambda>unit_price_int.
      bind_err (int_if_truthy coverage_ratio) (\<lambda>coverage_ratio_int.
      bind_err (int_if_truthy floor_area_ratio) (\<lambda>floor_area_ratio_int.
      Inr (map_of
        [(''source_hash'', PStr source_hash),
         (''price_classification'', price_classification),
         (''prefecture_code'', PStr prefecture_code),
         (''municipality_code'', municipality_code),
         (''municipality_name'', dict_get_default record ''Municipality'' (PStr [])),
         (''district_name'', dict_get record ''DistrictName''),
         (''property_type_id'', property_type_id),
         (''property_type_raw'', property_type_raw),
         (''trade_price'', trade_price_int),
         (''unit_price'', unit_price_int),
         (''area_m2'', float_value area_m2),
         (''total_floor_area_m2'', float_value total_floor_area),
         (''floor_plan'', dict_get record ''FloorPlan''),
         (''building_year'', int_value building_year),
         (''structure'', dict_get record ''Structure''),
         (''land_shape'', dict_get record ''LandShape''),
         (''frontage_m'', float_value frontage),
         (''road_direction'', dict_get record ''Direction''),
         (''road_type'', dict_get record ''Classification''),
         (''road_width_m'', float_value road_width),
         (''city_planning'', dict_get record ''CityPlanning''),
         (''coverage_ratio'', coverage_ratio_int),
         (''floor_area_ratio'', floor_area_ratio_int),
         (''transaction_year'', PInt year),
         (''transaction_quarter'', int_value quarter),
         (''transaction_period'', dict_get record ''Period''),
         (''renovation'', dict_get record ''Renovation''),
         (''remarks'', dict_get record ''Remarks'')])))))))))))))))))"

text \<open>The raw values that \<^verbatim>\<open>parse_numeric\<close> reads as the number zero.\<close>

definition parses_to_zero :: "float_ops \<Rightarrow> pyval \<Rightarrow> bool" where
  "parses_to_zero fl v =
     (parse_numeric fl v = Inr (Some (Finite 0)) \<or> parse_numeric fl v = Inr (Some NegZero))"

text \<open>Example records.\<close>

definition zero_record :: pydict where
  "zero_record =
     [''MunicipalityCode'' \<mapsto> PStr ''13101'', ''TradePrice'' \<mapsto> PStr ''0'',
      ''UnitPrice'' \<mapsto> PInt 0, ''CoverageRatio'' \<mapsto> PStr ''0.0'',
      ''FloorAreaRatio'' \<mapsto> PFloat (Finite 0)]"

definition ginza_a :: pydict where
  "ginza_a = [''DistrictName'' \<mapsto> PStr ''Ginza|100'', ''TradePrice'' \<mapsto> PStr ''200'']"

definition ginza_b :: pydict where
  "ginza_b = [''DistrictName'' \<mapsto> PStr ''Ginza'', ''TradePrice'' \<mapsto> PStr ''100|200'']"

section \<open>The loader\<close>

text \<open>
  The store behind \<^verbatim>\<open>conn\<close>: the \<^verbatim>\<open>municipalities\<close> table (code, prefecture code, Japanese
  and English name) and the \<^verbatim>\<open>transactions\<close> table, whose rows are the 27 inserted
  columns with \<^verbatim>\<open>source_hash\<close> first. The tables are taken to accept every row offered:
  the two conflict targets are the only constraints modelled. Every statement is
  committed.
\<close>

type_synonym row = "pyval list"

record store =
  municipalities :: "(pyval \<times> string \<times> pyval \<times> pyval) list"
  transactions :: "row list"

text \<open>\<^verbatim>\<open>ensure_municipality_exists\<close>: \<^verbatim>\<open>INSERT ... ON CONFLICT (code) DO NOTHING\<close>.\<close>

definition ensure_municipality_exists ::
  "store \<Rightarrow> pyval \<Rightarrow> string \<Rightarrow> pyval \<Rightarrow> pyerror + store" where
  "ensure_municipality_exists conn code prefecture_code name =
     (if \<not> truthy code then Inr conn
      else
        (case len_of code of
           Inl e \<Rightarrow> Inl e
         | Inr n \<Rightarrow>
             if n \<noteq> 5 then Inr conn
             else if code \<in> fst ` set (municipalities conn) then Inr conn
             else Inr (conn\<lparr>municipalities :=
                        municipalities conn @ [(code, prefecture_code, name, name)]\<rparr>)))"

text \<open>The first loop of \<^verbatim>\<open>insert_transactions\<close>, with the set \<^verbatim>\<open>seen_municipalities\<close>.\<close>

fun ensure_municipalities ::
  "store \<Rightarrow> pyval list \<Rightarrow> pydict list \<Rightarrow> string \<Rightarrow> pyerror + store" where
  "ensure_municipalities conn seen [] prefecture_code = Inr conn"
| "ensure_municipalities conn seen (record # records) prefecture_code =
     (let muni_code = dict_get record ''municipality_code'';
          muni_name = dict_get_default record ''municipality_name'' (PStr [])
      in if truthy muni_code \<and> muni_code \<notin> set seen then
           (case ensure_municipality_exists conn muni_code prefecture_code muni_name of
              Inl e \<Rightarrow> Inl e
            | Inr conn' \<Rightarrow> ensure_municipalities conn' (muni_code # seen) records prefecture_code)
         else ensure_municipalities conn seen records prefecture_code)"

definition columns :: "string list" where
  "columns =
     [''source_hash'', ''price_classification'', ''prefecture_code'',
      ''municipality_code'', ''district_name'', ''property_type_id'',
      ''property_type_raw'', ''trade_price'', ''unit_price'', ''area_m2'',
      ''total_floor_area_m2'', ''floor_plan'', ''building_year'', ''structure'',
      ''land_shape'', ''frontage_m'', ''road_direction'', ''road_type'',
      ''road_width_m'', ''city_planning'', ''coverage_ratio'', ''floor_area_ratio'',
      ''transaction_year'', ''transaction_quarter'', ''transaction_period'',
      ''renovation'', ''remarks'']"

definition row_of :: "pydict \<Rightarrow> row" where
  "row_of record = map (dict_get record) columns"

definition source_hash_of :: "row \<Rightarrow> pyval" where
  "source_hash_of r = (case r of [] \<Rightarrow> PNone | h # rest \<Rightarrow> h)"

text \<open>
  One statement \<^verbatim>\<open>INSERT INTO transactions ... VALUES ... ON CONFLICT (source_hash) DO NOTHING\<close>:
  the rows are taken in order; a row whose \<^verbatim>\<open>source_hash\<close> equals that of a row of the
  table, or of a row inserted earlier by the same statement, is skipped, and left as it
  is. A null never conflicts. The result is the table and the statement's row count.
\<close>

definition conflicts :: "row list \<Rightarrow> row \<Rightarrow> bool" where
  "conflicts table r =
     (source_hash_of r \<noteq> PNone \<and> source_hash_of r \<in> source_hash_of ` set table)"

fun insert_on_conflict_do_nothing :: "row list \<Rightarrow> row list \<Rightarrow> row list \<times> int" where
  "insert_on_conflict_do_nothing table [] = (table, 0)"
| "insert_on_conflict_do_nothing table (r # rows) =
     (if conflicts table r then insert_on_conflict_do_nothing table rows
      else (case insert_on_conflict_do_nothing (table @ [r]) rows of
              (table', n) \<Rightarrow> (table', n + 1)))"

text \<open>
  \<^verbatim>\<open>psycopg2.extras.execute_values(cur, sql, argslist, page_size)\<close> cuts the argument list
  into pages of \<^verbatim>\<open>page_size\<close> rows and executes one statement per page, so that afterwards
  \<^verbatim>\<open>cur.rowcount\<close> is the row count of the last statement executed (\<open>-1\<close> when none was).
\<close>

function paginate :: "nat \<Rightarrow> 'a list \<Rightarrow> 'a list list" where
  "paginate page_size seq =
     (if page_size = 0 \<or> seq = [] then []
      else take page_size seq # paginate page_size (drop page_size seq))"
  by pat_completeness auto
termination
  by (relation "measure (\<lambda>(page_size, seq). length seq)") auto

declare paginate.simps [simp del]

definition execute_values :: "row list \<Rightarrow> row list \<Rightarrow> nat \<Rightarrow> row list \<times> int" where
  "execute_values table argslist page_size =
     foldl (\<lambda>cur page. insert_on_conflict_do_nothing (fst cur) page) (table, - 1)
       (paginate page_size argslist)"

text \<open>\<^verbatim>\<open>insert_transactions(conn, records, prefecture_code)\<close>: the count and the store.\<close>

definition insert_transactions ::
  "store \<Rightarrow> pydict list \<Rightarrow> string \<Rightarrow> pyerror + (int \<times> store)" where
  "insert_transactions conn records prefecture_code =
     (if records = [] then Inr (0, conn)
      else
        (case ensure_municipalities conn [] records prefecture_code of
           Inl e \<Rightarrow> Inl e
         | Inr conn' \<Rightarrow>
             (case execute_values (transactions conn') (map row_of records) 1000 of
                (table, inserted) \<Rightarrow> Inr (inserted, conn'\<lparr>transactions := table\<rparr>))))"

text \<open>
  A canonical record, as \<^verbatim>\<open>transform_record\<close> builds it: \<^verbatim>\<open>source_hash\<close> is a string, and
  \<^verbatim>\<open>municipality_code\<close> is \<^verbatim>\<open>None\<close> or a string.
\<close>

definition canonical :: "pydict \<Rightarrow> bool" where
  "canonical record =
     ((case dict_get record ''source_hash'' of PStr h \<Rightarrow> True | _ \<Rightarrow> False) \<and>
      (case dict_get record ''municipality_code'' of PNone \<Rightarrow> True | PStr c \<Rightarrow> True | _ \<Rightarrow> False))"

definition empty_store :: store where
  "empty_store = \<lparr>municipalities = [], transactions = []\<rparr>"

text \<open>Example canonical records, with different hashes.\<close>

definition listing_a :: pydict where
  "listing_a =
     [''source_hash'' \<mapsto> PStr ''52b0a2bde7cb223071a156a93c774c92'',
      ''prefecture_code'' \<mapsto> PStr ''13'', ''municipality_code'' \<mapsto> PStr ''13101'',
      ''municipality_name'' \<mapsto> PStr ''Chiyoda Ward'', ''trade_price'' \<mapsto> PInt 40000000]"

definition listing_b :: pydict where
  "listing_b =
     [''source_hash'' \<mapsto> PStr ''2a43b7581517f4d46a698508d8388f09'',
      ''prefecture_code'' \<mapsto> PStr ''13'', ''municipality_code'' \<mapsto> PNone,
      ''municipality_name'' \<mapsto> PStr [], ''trade_price'' \<mapsto> PInt 52000000]"

section \<open>The harvest of one prefecture and year, with its pacing\<close>

text \<open>
  A run of the pipeline with its clock: the store, the time in seconds since the run
  began, and the times at which the requests to the transaction API were sent, oldest
  first. \<open>elapsed n\<close> is the time that the \<open>n\<close>-th request and the handling of its reply
  take; \<^verbatim>\<open>time.sleep(d)\<close> lets \<open>d\<close> seconds pass.
\<close>

record run =
  db :: store
  now :: rat
  sent_at :: "rat list"

definition REQUESTS_PER_SECOND :: rat where
  "REQUESTS_PER_SECOND = 2"

definition MIN_REQUEST_INTERVAL :: rat where
  "MIN_REQUEST_INTERVAL = 1 / REQUESTS_PER_SECOND"

definition sleep :: "rat \<Rightarrow> run \<Rightarrow> run" where
  "sleep d s = s\<lparr>now := now s + d\<rparr>"

text \<open>
  \<^verbatim>\<open>client.get_transactions\<close> in a run: \<^verbatim>\<open>self.session.get\<close> is called as soon as the method
  is, so the request is sent at the current time; the method keeps no time of a last
  request and waits for nothing.
\<close>

definition client_get_transactions ::
  "pydict mlit_server \<Rightarrow> (nat \<Rightarrow> rat) \<Rightarrow> run \<Rightarrow> int \<Rightarrow> string \<Rightarrow> int
     \<Rightarrow> (pyerror + pydict list option) \<times> run" where
  "client_get_transactions srv elapsed s year area quarter =
     (get_transactions (srv (length (sent_at s)) year area quarter),
      s\<lparr>sent_at := sent_at s @ [now s], now := now s + elapsed (length (sent_at s))\<rparr>)"

text \<open>\<^verbatim>\<open>[transform_record(t, prefecture_code, year, quarter) for t in transactions]\<close>, with
  \<open>fetched\<close> for the list \<^verbatim>\<open>transactions\<close> that the client returned.\<close>

fun transform_all ::
  "float_ops \<Rightarrow> pydict list \<Rightarrow> string \<Rightarrow> int \<Rightarrow> int \<Rightarrow> pyerror + pydict list" where
  "transform_all fl [] prefecture_code year quarter = Inr []"
| "transform_all fl (t # ts) prefecture_code year quarter =
     bind_err (transform_record fl t prefecture_code year (Some quarter)) (\<lambda>r.
     bind_err (transform_all fl ts prefecture_code year quarter) (\<lambda>rs. Inr (r # rs)))"

text \<open>
  What the \<^verbatim>\<open>try\<close> block of \<^verbatim>\<open>ingest_prefecture_year\<close> does with the client's result: the
  number of rows inserted and the run. An exception (of the client, the transformer
  or the loader) is caught and printed, and leaves the store as it was before the
  quarter; so do \<^verbatim>\<open>None\<close> and an empty list.
\<close>

definition load_quarter ::
  "float_ops \<Rightarrow> run \<Rightarrow> pyerror + pydict list option \<Rightarrow> string \<Rightarrow> int \<Rightarrow> int \<Rightarrow> int \<times> run" where
  "load_quarter fl s result prefecture_code year quarter =
     (case result of
        Inl e \<Rightarrow> (0, s)
      | Inr None \<Rightarrow> (0, s)
      | Inr (Some fetched) \<Rightarrow>
          if fetched \<noteq> [] then
            (case transform_all fl fetched prefecture_code year quarter of
               Inl e \<Rightarrow> (0, s)
             | Inr records \<Rightarrow>
                 (case insert_transactions (db s) records prefecture_code of
                    Inl e \<Rightarrow> (0, s)
                  | Inr (inserted, conn') \<Rightarrow> (inserted, s\<lparr>db := conn'\<rparr>)))
          else (0, s))"

text \<open>
  The loop \<^verbatim>\<open>for quarter in quarters_to_fetch\<close>: the request, the \<^verbatim>\<open>try\<close> block, and then,
  whatever happened, \<^verbatim>\<open>time.sleep(MIN_REQUEST_INTERVAL)\<close>.
\<close>

fun ingest_quarters ::
  "float_ops \<Rightarrow> pydict mlit_server \<Rightarrow> (nat \<Rightarrow> rat) \<Rightarrow> run \<Rightarrow> string \<Rightarrow> int \<Rightarrow> int list
     \<Rightarrow> int \<Rightarrow> int \<times> run" where
  "ingest_quarters fl srv elapsed s prefecture_code year [] total_inserted = (total_inserted, s)"
| "ingest_quarters fl srv elapsed s prefecture_code year (quarter # quarters) total_inserted =
     (case client_get_transactions srv elapsed s year prefecture_code quarter of
        (result, s1) \<Rightarrow>
          (case load_quarter fl s1 result prefecture_code year quarter of
             (inserted, s2) \<Rightarrow>
               ingest_quarters fl srv elapsed (sleep MIN_REQUEST_INTERVAL s2) prefecture_code year
                 quarters (total_inserted + inserted)))"

text \<open>
  \<^verbatim>\<open>ingest_prefecture_year\<close>: \<^verbatim>\<open>quarters or [1, 2, 3, 4]\<close>. (The row that
  \<^verbatim>\<open>ensure_prefecture_exists\<close> adds goes to a table that is not part of the store here.)
\<close>

definition ingest_prefecture_year ::
  "float_ops \<Rightarrow> pydict mlit_server \<Rightarrow> (nat \<Rightarrow> rat) \<Rightarrow> run \<Rightarrow> string \<Rightarrow> int
     \<Rightarrow> int list option \<Rightarrow> int \<times> run" where
  "ingest_prefecture_year fl srv elapsed s prefecture_code year quarters =
     ingest_quarters fl srv elapsed s prefecture_code year
       (case quarters of None \<Rightarrow> [1, 2, 3, 4] | Some qs \<Rightarrow> if qs = [] then [1, 2, 3, 4] else qs) 0"

text \<open>Times that are at least \<open>d\<close> apart, each from the one before.\<close>

fun spaced :: "rat \<Rightarrow> rat list \<Rightarrow> bool" where
  "spaced d [] = True"
| "spaced d [t] = True"
| "spaced d (t # u # ts) = (t + d \<le> u \<and> spaced d (u # ts))"

text \<open>An example run: an empty store at time 0, and requests that take 20 ms each.\<close>

definition fresh_run :: run where
  "fresh_run = \<lparr>db = empty_store, now = 0, sent_at = []\<rparr>"

definition quick :: "nat \<Rightarrow> rat" where
  "quick n = 1 / 50"

definition no_data_server :: "pydict mlit_server" where
  "no_data_server n year area quarter = Reply 200 (Some [])"

chapter \<open>Verification\<close>

section \<open>The period probe\<close>

lemma probe_loop_unavailable:
  "unavailable_reply (reply_at srv (length reqs) p) \<Longrightarrow>
   probe_loop srv (Suc k) reqs (fst p) (snd p) =
     probe_loop srv k (reqs @ [p]) (fst (spec_previous_quarter p)) (snd (spec_previous_quarter p))"
  by (cases p) (simp add: unavailable_reply_def reply_at_def spec_previous_quarter_def)

lemma probe_loop_data:
  "data_reply (reply_at srv (length reqs) p) \<Longrightarrow>
   probe_loop srv (Suc k) reqs (fst p) (snd p) = Inr (Some p, reqs @ [p])"
  by (cases p) (auto simp: data_reply_def reply_at_def split: sum.splits option.splits)

lemma probe_loop_cases:
  "probe_loop srv (Suc k) reqs (fst p) (snd p) = Inr (r, reqs') \<Longrightarrow>
     reqs' = reqs @ [p] \<or>
     probe_loop srv k (reqs @ [p]) (fst (spec_previous_quarter p)) (snd (spec_previous_quarter p))
       = Inr (r, reqs')"
  by (cases p) (auto simp: spec_previous_quarter_def split: sum.splits option.splits if_splits)

lemma find_latest_start:
  assumes "1 \<le> month" "month \<le> 12"
  shows "find_latest_available_quarter srv reqs year month =
     probe_loop srv 4 reqs (fst (spec_last_completed_quarter year month))
       (snd (spec_last_completed_quarter year month))"
proof -
  consider "month \<le> 3" | "3 < month" "month \<le> 6" | "6 < month" "month \<le> 9" | "9 < month"
    by linarith
  then show ?thesis
  proof cases
    case 1
    with assms have "(month - 1) div 3 = 0" by simp
    with 1 show ?thesis
      by (simp add: find_latest_available_quarter_def spec_last_completed_quarter_def)
  next
    case 2
    then have "(month - 1) div 3 = 1" by presburger
    with 2 show ?thesis
      by (simp add: find_latest_available_quarter_def spec_last_completed_quarter_def)
  next
    case 3
    then have "(month - 1) div 3 = 2" by presburger
    with 3 show ?thesis
      by (simp add: find_latest_available_quarter_def spec_last_completed_quarter_def)
  next
    case 4
    with assms have "(month - 1) div 3 = 3" by presburger
    with 4 show ?thesis
      by (simp add: find_latest_available_quarter_def spec_last_completed_quarter_def)
  qed
qed

lemma probe_four:
  fixes a b c d :: "int \<times> int"
  assumes b: "b = spec_previous_quarter a" and c: "c = spec_previous_quarter b"
    and d: "d = spec_previous_quarter c"
  shows "(unavailable_reply (reply_at srv (length reqs) a) \<and>
          unavailable_reply (reply_at srv (length reqs + 1) b) \<and>
          unavailable_reply (reply_at srv (length reqs + 2) c) \<and>
          unavailable_reply (reply_at srv (length reqs + 3) d) \<longrightarrow>
            probe_loop srv 4 reqs (fst a) (snd a) = Inr (None, reqs @ [a, b, c, d]))"
    and "data_reply (reply_at srv (length reqs) a) \<longrightarrow>
            probe_loop srv 4 reqs (fst a) (snd a) = Inr (Some a, reqs @ [a])"
    and "unavailable_reply (reply_at srv (length reqs) a) \<and>
         data_reply (reply_at srv (length reqs + 1) b) \<longrightarrow>
            probe_loop srv 4 reqs (fst a) (snd a) = Inr (Some b, reqs @ [a, b])"
    and "unavailable_reply (reply_at srv (length reqs) a) \<and>
         unavailable_reply (reply_at srv (length reqs + 1) b) \<and>
         data_reply (reply_at srv (length reqs + 2) c) \<longrightarrow>
            probe_loop srv 4 reqs (fst a) (snd a) = Inr (Some c, reqs @ [a, b, c])"
    and "unavailable_reply (reply_at srv (length reqs) a) \<and>
         unavailable_reply (reply_at srv (length reqs + 1) b) \<and>
         unavailable_reply (reply_at srv (length reqs + 2) c) \<and>
         data_reply (reply_at srv (length reqs + 3) d) \<longrightarrow>
            probe_loop srv 4 reqs (fst a) (snd a) = Inr (Some d, reqs @ [a, b, c, d])"
    and "probe_loop srv 4 reqs (fst a) (snd a) = Inr (r, reqs') \<longrightarrow>
           reqs' = reqs @ [a] \<or> reqs' = reqs @ [a, b] \<or> reqs' = reqs @ [a, b, c]
             \<or> reqs' = reqs @ [a, b, c, d]"
proof -
  have four: "(4::nat) = Suc (Suc (Suc (Suc 0)))" by simp
  have la: "length (reqs @ [a]) = length reqs + 1"
    and lb: "length ((reqs @ [a]) @ [b]) = length reqs + 2"
    and lc: "length (((reqs @ [a]) @ [b]) @ [c]) = length reqs + 3"
    by simp_all
  note un = probe_loop_unavailable and da = probe_loop_data
  show "(unavailable_reply (reply_at srv (length reqs) a) \<and>
          unavailable_reply (reply_at srv (length reqs + 1) b) \<and>
          unavailable_reply (reply_at srv (length reqs + 2) c) \<and>
          unavailable_reply (reply_at srv (length reqs + 3) d) \<longrightarrow>
            probe_loop srv 4 reqs (fst a) (snd a) = Inr (None, reqs @ [a, b, c, d]))"
    unfolding four
    using un [of srv reqs a] un [of srv "reqs @ [a]" b] un [of srv "(reqs @ [a]) @ [b]" c]
      un [of srv "((reqs @ [a]) @ [b]) @ [c]" d]
    by (simp add: b c d numeral_3_eq_3 del: probe_loop.simps(2))
  show "data_reply (reply_at srv (length reqs) a) \<longrightarrow>
            probe_loop srv 4 reqs (fst a) (snd a) = Inr (Some a, reqs @ [a])"
    unfolding four using da [of srv reqs a] by (simp del: probe_loop.simps(2))
  show "unavailable_reply (reply_at srv (length reqs) a) \<and>
         data_reply (reply_at srv (length reqs + 1) b) \<longrightarrow>
            probe_loop srv 4 reqs (fst a) (snd a) = Inr (Some b, reqs @ [a, b])"
    unfolding four using un [of srv reqs a] da [of srv "reqs @ [a]" b] by (simp add: b del: probe_loop.simps(2))
  show "unavailable_reply (reply_at srv (length reqs) a) \<and>
         unavailable_reply (reply_at srv (length reqs + 1) b) \<and>
         data_reply (reply_at srv (length reqs + 2) c) \<longrightarrow>
            probe_loop srv 4 reqs (fst a) (snd a) = Inr (Some c, reqs @ [a, b, c])"
    unfolding four
    using un [of srv reqs a] un [of srv "reqs @ [a]" b] da [of srv "(reqs @ [a]) @ [b]" c]
    by (simp add: b c del: probe_loop.simps(2))
  show "unavailable_reply (reply_at srv (length reqs) a) \<and>
         unavailable_reply (reply_at srv (length reqs + 1) b) \<and>
         unavailable_reply (reply_at srv (length reqs + 2) c) \<and>
         data_reply (reply_at srv (length reqs + 3) d) \<longrightarrow>
            probe_loop srv 4 reqs (fst a) (snd a) = Inr (Some d, reqs @ [a, b, c, d])"
    unfolding four
    using un [of srv reqs a] un [of srv "reqs @ [a]" b] un [of srv "(reqs @ [a]) @ [b]" c]
      da [of srv "((reqs @ [a]) @ [b]) @ [c]" d]
    by (simp add: b c d numeral_3_eq_3 del: probe_loop.simps(2))
  show "probe_loop srv 4 reqs (fst a) (snd a) = Inr (r, reqs') \<longrightarrow>
           reqs' = reqs @ [a] \<or> reqs' = reqs @ [a, b] \<or> reqs' = reqs @ [a, b, c]
             \<or> reqs' = reqs @ [a, b, c, d]"
  proof
    assume r: "probe_loop srv 4 reqs (fst a) (snd a) = Inr (r, reqs')"
    show "reqs' = reqs @ [a] \<or> reqs' = reqs @ [a, b] \<or> reqs' = reqs @ [a, b, c]
             \<or> reqs' = reqs @ [a, b, c, d]"
    proof (cases "reqs' = reqs @ [a] \<or> reqs' = reqs @ [a, b] \<or> reqs' = reqs @ [a, b, c]")
      case True
      then show ?thesis by blast
    next
      case False
      from r False probe_loop_cases [of srv "Suc (Suc (Suc 0))" reqs a r reqs']
      have "probe_loop srv (Suc (Suc (Suc 0))) (reqs @ [a]) (fst b) (snd b) = Inr (r, reqs')"
        by (simp add: four b del: probe_loop.simps(2))
      with False probe_loop_cases [of srv "Suc (Suc 0)" "reqs @ [a]" b r reqs']
      have "probe_loop srv (Suc (Suc 0)) (reqs @ [a, b]) (fst c) (snd c) = Inr (r, reqs')"
        by (simp add: c del: probe_loop.simps(2))
      with False probe_loop_cases [of srv "Suc 0" "reqs @ [a, b]" c r reqs']
      have "probe_loop srv (Suc 0) (reqs @ [a, b, c]) (fst d) (snd d) = Inr (r, reqs')"
        by (simp add: d del: probe_loop.simps(2))
      with probe_loop_cases [of srv 0 "reqs @ [a, b, c]" d r reqs']
      show ?thesis by (auto simp del: probe_loop.simps(2))
    qed
  qed
qed

text \<open>
  Claim C6. Called in month \<open>month\<close> of \<open>year\<close>, the probe starts at the most recently
  completed calendar quarter and walks back one quarter at a time across year
  boundaries (the sequence \<open>spec_probe_sequence\<close>). It stops at the first quarter for
  which the client returns a record list rather than \<^verbatim>\<open>None\<close> (the list may be empty:
  the test in the source is \<^verbatim>\<open>result is not None\<close>). When all four probed quarters are
  unavailable (HTTP 400 or 404) it returns \<^verbatim>\<open>(None, None)\<close> without raising, after exactly
  four requests; and whenever it returns, it has made at most four requests, to an
  initial segment of that sequence.
\<close>

theorem find_latest_available_quarter_probe:
  assumes "1 \<le> month" "month \<le> 12"
  shows
    "((\<forall>i<4. unavailable_reply
          (reply_at srv (length reqs + i) (spec_probe_sequence year month ! i))) \<longrightarrow>
        find_latest_available_quarter srv reqs year month =
          Inr (None, reqs @ spec_probe_sequence year month)) \<and>
     (\<forall>k<4.
        (\<forall>i<k. unavailable_reply
            (reply_at srv (length reqs + i) (spec_probe_sequence year month ! i))) \<and>
        data_reply (reply_at srv (length reqs + k) (spec_probe_sequence year month ! k)) \<longrightarrow>
        find_latest_available_quarter srv reqs year month =
          Inr (Some (spec_probe_sequence year month ! k),
               reqs @ take (Suc k) (spec_probe_sequence year month))) \<and>
     (\<forall>r reqs'. find_latest_available_quarter srv reqs year month = Inr (r, reqs') \<longrightarrow>
        (\<exists>n\<le>4. reqs' = reqs @ take n (spec_probe_sequence year month)))"
proof -
  obtain a b c d where qs: "spec_probe_sequence year month = [a, b, c, d]"
    and a: "a = spec_last_completed_quarter year month"
    and b: "b = spec_previous_quarter a"
    and c: "c = spec_previous_quarter b"
    and d: "d = spec_previous_quarter c"
    by (simp add: spec_probe_sequence_def Let_def)
  have start: "find_latest_available_quarter srv reqs year month = probe_loop srv 4 reqs (fst a) (snd a)"
    using find_latest_start [OF assms] a by simp
  have all4: "(\<forall>i<4. P i) = (P 0 \<and> P 1 \<and> P 2 \<and> P (3::nat))" for P
  proof -
    have "i < 4 \<longleftrightarrow> i = 0 \<or> i = 1 \<or> i = 2 \<or> i = 3" for i :: nat by auto
    then show ?thesis by auto
  qed
  note pf = probe_four [OF b c d, of srv reqs]
  have one: "(\<forall>i<4. unavailable_reply (reply_at srv (length reqs + i) ([a, b, c, d] ! i))) \<longrightarrow>
      probe_loop srv 4 reqs (fst a) (snd a) = Inr (None, reqs @ [a, b, c, d])"
    using pf(1) by (simp add: all4)
  have two: "\<forall>k<4. (\<forall>i<k. unavailable_reply (reply_at srv (length reqs + i) ([a, b, c, d] ! i))) \<and>
        data_reply (reply_at srv (length reqs + k) ([a, b, c, d] ! k)) \<longrightarrow>
        probe_loop srv 4 reqs (fst a) (snd a) =
          Inr (Some ([a, b, c, d] ! k), reqs @ take (Suc k) [a, b, c, d])"
  proof (intro allI impI)
    fix k :: nat
    assume k: "k < 4"
      and h: "(\<forall>i<k. unavailable_reply (reply_at srv (length reqs + i) ([a, b, c, d] ! i))) \<and>
        data_reply (reply_at srv (length reqs + k) ([a, b, c, d] ! k))"
    from k consider "k = 0" | "k = 1" | "k = 2" | "k = 3" by linarith
    then show "probe_loop srv 4 reqs (fst a) (snd a) =
          Inr (Some ([a, b, c, d] ! k), reqs @ take (Suc k) [a, b, c, d])"
    proof cases
      case 1
      with h pf(2) show ?thesis by simp
    next
      case 2
      from h have u: "i < k \<Longrightarrow> unavailable_reply (reply_at srv (length reqs + i) ([a, b, c, d] ! i))"
        for i by blast
      from h 2 u [of 0] have "unavailable_reply (reply_at srv (length reqs) a)"
        "data_reply (reply_at srv (length reqs + 1) b)" by simp_all
      with pf(3) 2 show ?thesis by simp
    next
      case 3
      from h have u: "i < k \<Longrightarrow> unavailable_reply (reply_at srv (length reqs + i) ([a, b, c, d] ! i))"
        for i by blast
      from h 3 u [of 0] u [of 1] have "unavailable_reply (reply_at srv (length reqs) a)"
        "unavailable_reply (reply_at srv (length reqs + 1) b)"
        "data_reply (reply_at srv (length reqs + 2) c)" by simp_all
      with pf(4) 3 show ?thesis by (simp add: numeral_2_eq_2)
    next
      case 4
      from h have u: "i < k \<Longrightarrow> unavailable_reply (reply_at srv (length reqs + i) ([a, b, c, d] ! i))"
        for i by blast
      from h 4 u [of 0] u [of 1] u [of 2] have "unavailable_reply (reply_at srv (length reqs) a)"
        "unavailable_reply (reply_at srv (length reqs + 1) b)"
        "unavailable_reply (reply_at srv (length reqs + 2) c)"
        "data_reply (reply_at srv (length reqs + 3) d)" by simp_all
      with pf(5) 4 show ?thesis by (simp add: numeral_3_eq_3)
    qed
  qed
  have three: "\<forall>r reqs'. probe_loop srv 4 reqs (fst a) (snd a) = Inr (r, reqs') \<longrightarrow>
        (\<exists>n\<le>4. reqs' = reqs @ take n [a, b, c, d])"
  proof (intro allI impI)
    fix r reqs' assume "probe_loop srv 4 reqs (fst a) (snd a) = Inr (r, reqs')"
    with probe_four(6) [OF b c d, of srv reqs r reqs']
    consider "reqs' = reqs @ [a]" | "reqs' = reqs @ [a, b]" | "reqs' = reqs @ [a, b, c]"
      | "reqs' = reqs @ [a, b, c, d]" by blast
    then show "\<exists>n\<le>4. reqs' = reqs @ take n [a, b, c, d]"
    proof cases
      case 1 then show ?thesis by (intro exI [of _ 1]) simp
    next
      case 2 then show ?thesis by (intro exI [of _ 2]) (simp add: numeral_2_eq_2)
    next
      case 3 then show ?thesis by (intro exI [of _ 3]) (simp add: numeral_3_eq_3)
    next
      case 4 then show ?thesis by (intro exI [of _ 4]) simp
    qed
  qed
  show ?thesis unfolding start qs using one two three by blast
qed

theorem find_latest_available_quarter_probe_witness:
  "find_latest_available_quarter (\<lambda>n y a q. Reply 404 None :: unit http_reply) [] 2024 5 =
     Inr (None, [(2024, 1), (2023, 4), (2023, 3), (2023, 2)]) \<and>
   find_latest_available_quarter
     (\<lambda>n y a q. if y = 2023 \<and> q = 4 then Reply 200 (Some [()]) else Reply 404 None) [] 2024 5 =
     Inr (Some (2023, 4), [(2024, 1), (2023, 4)])"
proof -
  have m: "(1::int) \<le> 5" "(5::int) \<le> 12" by simp_all
  note defs = spec_probe_sequence_def spec_last_completed_quarter_def spec_previous_quarter_def
    unavailable_reply_def data_reply_def reply_at_def get_transactions_def
  from find_latest_available_quarter_probe
    [OF m, of "\<lambda>n y a q. Reply 404 None :: unit http_reply" "[]" 2024, THEN conjunct1]
  have A: "find_latest_available_quarter (\<lambda>n y a q. Reply 404 None :: unit http_reply) [] 2024 5 =
     Inr (None, [(2024, 1), (2023, 4), (2023, 3), (2023, 2)])"
    by (simp add: defs)
  from find_latest_available_quarter_probe
    [OF m, of "\<lambda>n y a q. if y = 2023 \<and> q = 4 then Reply 200 (Some [()]) else Reply 404 None"
      "[]" 2024, THEN conjunct2, THEN conjunct1, rule_format, of 1]
  have B: "find_latest_available_quarter
     (\<lambda>n y a q. if y = 2023 \<and> q = 4 then Reply 200 (Some [()]) else Reply 404 None) [] 2024 5 =
     Inr (Some (2023, 4), [(2024, 1), (2023, 4)])"
    by (simp add: defs)
  from A B show ?thesis by (rule conjI)
qed

section \<open>The FX rate fetch\<close>

declare fx_attempts.simps [simp del]

lemma fx_attempts_not_found:
  assumes "fx_not_found (srv (length reqs) d currency)" "attempt < max_retries" "1 < d"
  shows "fx_attempts srv (Suc frames) reqs d currency attempt max_retries =
         fx_attempts srv frames (reqs @ [d]) (d - 1) currency 0 1"
  using assms
  by (subst fx_attempts.simps) (auto simp: fx_not_found_def split: fx_reply.splits)

lemma fx_attempts_rate:
  assumes "fx_rate_of (srv (length reqs) d currency) currency = Some r" "attempt < max_retries"
  shows "fx_attempts srv frames reqs d currency attempt max_retries = Inr (Some r, reqs @ [d])"
  using assms
  by (subst fx_attempts.simps) (auto simp: fx_rate_of_def split: fx_reply.splits option.splits if_splits)

lemma fx_attempts_exhausted:
  "max_retries \<le> attempt \<Longrightarrow>
   fx_attempts srv frames reqs d currency attempt max_retries = Inr (None, reqs)"
  by (subst fx_attempts.simps) simp

lemma fx_attempts_single_other:
  assumes "fx_rate_of (srv (length reqs) d currency) currency = None"
    "\<not> fx_not_found (srv (length reqs) d currency)"
  shows "fx_attempts srv frames reqs d currency 0 1 = Inr (None, reqs @ [d])"
  using assms
  by (subst fx_attempts.simps)
     (auto simp: fx_rate_of_def fx_not_found_def fx_attempts_exhausted
        split: fx_reply.splits option.splits if_splits)

lemma days_back_Suc: "days_back d (Suc n) = d # days_back (d - 1) n"
  unfolding days_back_def by (simp add: upt_rec [of 0] map_Suc_upt [symmetric] del: upt_Suc) 


lemma fx_fallback_walk:
  assumes "\<forall>i<k. fx_not_found (srv (length reqs + i) (d - int i) currency)"
    and "attempt < max_retries" "k \<le> frames" "int k < d" "0 < k"
  shows "fx_attempts srv frames reqs d currency attempt max_retries =
         fx_attempts srv (frames - k) (reqs @ days_back d k) (d - int k) currency 0 1"
  using assms
proof (induction k arbitrary: frames reqs d attempt max_retries)
  case 0
  then show ?case by simp
next
  case (Suc k)
  from Suc.prems obtain f where f: "frames = Suc f" by (cases frames) auto
  from Suc.prems(1) have nf: "fx_not_found (srv (length reqs) d currency)" by force
  from Suc.prems have d: "1 < d" by simp
  have step: "fx_attempts srv frames reqs d currency attempt max_retries =
      fx_attempts srv f (reqs @ [d]) (d - 1) currency 0 1"
    unfolding f using nf Suc.prems(2) d by (rule fx_attempts_not_found)
  show ?case
  proof (cases "k = 0")
    case True
    with step f show ?thesis by (simp add: days_back_def)
  next
    case False
    have "\<forall>i<k. fx_not_found (srv (length (reqs @ [d]) + i) (d - 1 - int i) currency)"
    proof (intro allI impI)
      fix i assume "i < k"
      with Suc.prems(1) have "fx_not_found (srv (length reqs + Suc i) (d - int (Suc i)) currency)"
        by blast
      then show "fx_not_found (srv (length (reqs @ [d]) + i) (d - 1 - int i) currency)"
        by (simp add: algebra_simps)
    qed
    moreover have "(0::nat) < 1" by simp
    moreover from Suc.prems f have "k \<le> f" "int k < d - 1" by simp_all
    moreover from False have "0 < k" by simp
    ultimately have "fx_attempts srv f (reqs @ [d]) (d - 1) currency 0 1 =
        fx_attempts srv (f - k) ((reqs @ [d]) @ days_back (d - 1) k) (d - 1 - int k) currency 0 1"
      by (rule Suc.IH)
    with step f show ?thesis by (simp add: days_back_Suc algebra_simps)
  qed
qed


lemma days_back_snoc: "days_back d (Suc k) = days_back d k @ [d - int k]"
  by (simp add: days_back_def)

text \<open>
  Claim C2, as the code has it. A not-found reply for the requested day makes the fetch
  ask for the prior calendar day, with a single attempt; every further not-found reply
  moves it one more day back, so after \<open>k\<close> consecutive not-found days the requests made
  are exactly the days \<open>d, d - 1, \<dots>, d - k\<close>, each once. The walk ends at the first day
  whose reply is not a not-found: with that day's rate when the reply carries one, and
  with no rate when it is anything else. (\<open>k \<le> frames\<close> and \<open>k < d\<close> keep the walk within
  the recursion limit and the calendar.)
\<close>

theorem fetch_fx_rate_fallback_walk:
  assumes "0 < max_retries" "0 < k" "k \<le> frames" "int k < d"
    and "\<forall>i<k. fx_not_found (srv (length reqs + i) (d - int i) currency)"
  shows
    "(fx_rate_of (srv (length reqs + k) (d - int k) currency) currency = Some r \<longrightarrow>
        fetch_fx_rate srv frames reqs d currency max_retries =
          Inr (Some r, reqs @ days_back d (Suc k))) \<and>
     (fx_rate_of (srv (length reqs + k) (d - int k) currency) currency = None \<and>
      \<not> fx_not_found (srv (length reqs + k) (d - int k) currency) \<longrightarrow>
        fetch_fx_rate srv frames reqs d currency max_retries =
          Inr (None, reqs @ days_back d (Suc k)))"
proof -
  have len: "length (days_back d k) = k"
    by (simp add: days_back_def)
  have walk: "fetch_fx_rate srv frames reqs d currency max_retries =
      fx_attempts srv (frames - k) (reqs @ days_back d k) (d - int k) currency 0 1"
    unfolding fetch_fx_rate_def using assms(5) assms(1) assms(3) assms(4) assms(2)
    by (rule fx_fallback_walk)
  have A: "fx_attempts srv (frames - k) (reqs @ days_back d k) (d - int k) currency 0 1 =
      Inr (Some r, reqs @ days_back d (Suc k))"
    if "fx_rate_of (srv (length reqs + k) (d - int k) currency) currency = Some r"
    using fx_attempts_rate [of srv "reqs @ days_back d k" "d - int k" currency r 0 1 "frames - k"] that
    by (simp add: len days_back_snoc)
  have B: "fx_attempts srv (frames - k) (reqs @ days_back d k) (d - int k) currency 0 1 =
      Inr (None, reqs @ days_back d (Suc k))"
    if "fx_rate_of (srv (length reqs + k) (d - int k) currency) currency = None"
      "\<not> fx_not_found (srv (length reqs + k) (d - int k) currency)"
    using fx_attempts_single_other [of srv "reqs @ days_back d k" "d - int k" currency "frames - k"] that
    by (simp add: len days_back_snoc)
  from walk A B show ?thesis by simp
qed

theorem fetch_fx_rate_fallback_walk_witness:
  "fetch_fx_rate weekend_server 900 [] 737744 ''USD'' 3 =
     Inr (Some (1 / 104), [737744, 737743, 737742]) \<and>
   fetch_fx_rate failing_server 900 [] 737744 ''USD'' 3 = Inr (None, [737744, 737743])"
proof -
  have nf: "\<forall>i<2. fx_not_found (weekend_server (length ([]::int list) + i) (737744 - int i) ''USD'')"
    by (simp add: fx_not_found_def weekend_server_def less_Suc_eq numeral_2_eq_2)
  have nf': "\<forall>i<1. fx_not_found (failing_server (length ([]::int list) + i) (737744 - int i) ''USD'')"
    by (simp add: fx_not_found_def failing_server_def)
  from fetch_fx_rate_fallback_walk
    [of 3 2 900 737744 weekend_server "[]" "''USD''" "1 / 104", OF _ _ _ _ nf]
  have A: "fetch_fx_rate weekend_server 900 [] 737744 ''USD'' 3 =
      Inr (Some (1 / 104), [737744, 737743, 737742])"
    by (simp add: fx_rate_of_def weekend_server_def days_back_def numeral_3_eq_3)
  from fetch_fx_rate_fallback_walk
    [of 3 1 900 737744 failing_server "[]" "''USD''" _, OF _ _ _ _ nf']
  have B: "fetch_fx_rate failing_server 900 [] 737744 ''USD'' 3 = Inr (None, [737744, 737743])"
    by (simp add: fx_rate_of_def fx_not_found_def failing_server_def days_back_def numeral_2_eq_2)
  from A B show ?thesis by (rule conjI)
qed

text \<open>
  Claim C2 as stated fails: the requested Sunday and the Saturday before it are both
  not found, and the fetch does not stop there with no rate. It goes on to a second
  fallback day, the Friday, and returns that day's rate.
\<close>

theorem fetch_fx_rate_second_fallback_day:
  "fx_not_found (weekend_server 0 737744 ''USD'') \<and>
   fx_not_found (weekend_server 1 737743 ''USD'') \<and>
   fetch_fx_rate weekend_server 900 [] 737744 ''USD'' 3 =
     Inr (Some (1 / 104), [737744, 737743, 737742])"
  by (simp add: fetch_fx_rate_def fx_not_found_def weekend_server_def fx_attempts.simps)

section \<open>Building years\<close>

text \<open>The character tables: ASCII, and the code points of the era names.\<close>

lemma digit_of_None: "digit_of c = None \<longleftrightarrow> \<not> in_ranges c decimal_ranges"
proof (cases "find (\<lambda>r. fst r \<le> c \<and> c \<le> snd r) decimal_ranges")
  case None
  then have "digit_of c = None" by (simp add: digit_of_def)
  moreover from None have "\<not> in_ranges c decimal_ranges"
    by (simp add: in_ranges_def find_None_iff)
  ultimately show ?thesis by simp
next
  case (Some r)
  then have "r \<in> set decimal_ranges \<and> fst r \<le> c \<and> c \<le> snd r"
    by (auto simp: find_Some_iff)
  with Some show ?thesis by (auto simp: digit_of_def in_ranges_def)
qed

lemma digit_of_less: "digit_of c = Some d \<Longrightarrow> d < 10"
  by (auto simp: digit_of_def split: option.splits)

lemma isspace_ascii: "c < 128 \<Longrightarrow> isspace c = (9 \<le> c \<and> c \<le> 13 \<or> 28 \<le> c \<and> c \<le> 32)"
  unfolding isspace_def in_ranges_def space_ranges_def by simp

lemma c_isspace_isspace: "c_isspace c \<Longrightarrow> isspace c"
proof -
  assume "c_isspace c"
  then have "c < 128 \<and> (9 \<le> c \<and> c \<le> 13 \<or> c = 32)" by (auto simp: c_isspace_def)
  then show ?thesis by (auto simp: isspace_ascii)
qed

lemma digit_of_ascii: "c < 128 \<Longrightarrow> digit_of c = (if ascii_digit c then Some (c - 48) else None)"
proof (cases "ascii_digit c")
  case True
  then have "c - 48 < 10" by (auto simp: ascii_digit_def)
  then have "(c - 48) mod 10 = c - 48" by (rule mod_less)
  with True show ?thesis by (simp add: digit_of_def decimal_ranges_def ascii_digit_def)
next
  case False
  assume "c < 128"
  with False have "\<not> in_ranges c decimal_ranges"
    by (simp add: in_ranges_def decimal_ranges_def ascii_digit_def)
  with False show ?thesis by (simp add: digit_of_None)
qed

lemma isspace_no_digit: "isspace c \<Longrightarrow> digit_of c = None"
  unfolding digit_of_None isspace_def in_ranges_def space_ranges_def decimal_ranges_def
  apply simp
  apply (elim disjE)
  apply simp_all
  done

lemma other_digit_not_space: "in_ranges c other_digit_ranges \<Longrightarrow> \<not> isspace c \<and> 127 \<le> c"
  unfolding isspace_def in_ranges_def space_ranges_def other_digit_ranges_def
  apply simp
  apply (elim disjE)
  apply simp_all
  done

lemma kanji_no_digit_space:
  "16384 \<le> c \<and> c \<le> 28671 \<or> 56320 \<le> c \<and> c \<le> 57343 \<Longrightarrow> \<not> isspace c \<and> digit_of c = None"
  unfolding digit_of_None isspace_def in_ranges_def space_ranges_def decimal_ranges_def
  apply simp
  apply (elim disjE)
  apply simp_all
  done
text \<open>What \<^verbatim>\<open>int\<close> accepts: white space, decimal digits, signs and underscores only.\<close>

lemma ord_simps:
  "ord CHR ''_'' = 95" "ord CHR ''-'' = 45" "ord CHR ''+'' = 43" "ord CHR '','' = 44"
  "ord CHR ''.'' = 46" "ord CHR ''e'' = 101" "ord CHR ''E'' = 69"
  by (simp_all add: ord_def)

lemma to_ascii_bad:
  assumes "c \<in> set cs" "\<not> isspace c" "digit_of c = None" "c \<noteq> 43" "c \<noteq> 45" "c \<noteq> 95"
  shows "\<exists>a\<in>set (to_ascii cs). \<not> c_isspace a \<and> \<not> ascii_digit a \<and> a \<noteq> 43 \<and> a \<noteq> 45 \<and> a \<noteq> 95"
  using assms(1)
proof (induction cs)
  case Nil
  then show ?case by simp
next
  case (Cons x xs)
  show ?case
  proof (cases "x < 127")
    case True
    show ?thesis
    proof (cases "c = x")
      case c: True
      from True c assms(3) have "\<not> ascii_digit x" by (simp add: digit_of_ascii split: if_splits)
      moreover from c assms(2) have "\<not> c_isspace x" by (auto dest: c_isspace_isspace)
      ultimately show ?thesis using True c assms by simp
    next
      case False
      with Cons True show ?thesis by auto
    qed
  next
    case False
    show ?thesis
    proof (cases "isspace x")
      case True
      with assms(2) have "c \<noteq> x" by auto
      with Cons False True show ?thesis by auto
    next
      case ns: False
      show ?thesis
      proof (cases "digit_of x")
        case None
        with False ns show ?thesis by (simp add: c_isspace_def ascii_digit_def)
      next
        case (Some d)
        with assms(3) have "c \<noteq> x" by auto
        with Cons False ns Some show ?thesis by auto
      qed
    qed
  qed
qed

lemma digitpart_chars: "digitpart cs \<Longrightarrow> c \<in> set cs \<Longrightarrow> ascii_digit c \<or> c = 95"
  by (induction cs rule: digitpart.induct) (auto simp: ord_simps split: if_splits)

lemma in_set_dropWhile: "x \<in> set xs \<Longrightarrow> \<not> P x \<Longrightarrow> x \<in> set (dropWhile P xs)"
  by (induction xs) auto

lemma c_strip_keeps: "c \<in> set s \<Longrightarrow> \<not> c_isspace c \<Longrightarrow> c \<in> set (c_strip s)"
  by (simp add: c_strip_def in_set_dropWhile)

lemma parse_int_chars:
  assumes "parse_int limit a = Some n" "c \<in> set a"
  shows "c_isspace c \<or> ascii_digit c \<or> c = 43 \<or> c = 45 \<or> c = 95"
proof (cases "c_isspace c")
  case True
  then show ?thesis by simp
next
  case False
  with assms(2) have c: "c \<in> set (c_strip a)" by (simp add: c_strip_keeps)
  then obtain h t where ht: "c_strip a = h # t" by (cases "c_strip a") auto
  from assms(1) ht consider "h = 45" "digitpart t" | "h = 43" "digitpart t"
    | "digitpart (h # t)"
    by (auto simp: parse_int_def ord_simps split: if_splits)
  then show ?thesis
  proof cases
    case 1
    with c ht digitpart_chars [of t c] show ?thesis by auto
  next
    case 2
    with c ht digitpart_chars [of t c] show ?thesis by auto
  next
    case 3
    with c ht digitpart_chars [of "h # t" c] show ?thesis by auto
  qed
qed

lemma int_of_text_chars:
  assumes "int_of_text limit cs = Some n" "c \<in> set cs"
  shows "isspace c \<or> digit_of c \<noteq> None \<or> c = 43 \<or> c = 45 \<or> c = 95"
proof (rule ccontr)
  assume "\<not> ?thesis"
  with assms(2) to_ascii_bad [of c cs] obtain a where
    "a \<in> set (to_ascii cs)" "\<not> c_isspace a" "\<not> ascii_digit a" "a \<noteq> 43" "a \<noteq> 45" "a \<noteq> 95"
    by auto
  with parse_int_chars [of limit "to_ascii cs" n a] assms(1) show False
    by (simp add: int_of_text_def)
qed
text \<open>
  Decoding keeps every byte that is no continuation byte as the head of a code point,
  so a string with an era marker holds a letter or a kanji, and \<^verbatim>\<open>int\<close> rejects it.
\<close>

lemma utf8_head_ascii: "n < 128 \<Longrightarrow> utf8_head n bs = (n, 0)"
  by (simp add: utf8_head_def)

lemma utf8_head_conts: "c \<in> set (take (snd (utf8_head n bs)) bs) \<Longrightarrow> is_continuation c"
  by (auto simp: utf8_head_def Let_def split: if_splits)

lemma decode_head:
  assumes "b \<in> set s" "\<not> is_continuation b"
  shows "\<exists>bs. fst (utf8_head (ord b) bs) \<in> set (decode s)"
  using assms(1)
proof (induction s rule: decode.induct)
  case 1
  then show ?case by simp
next
  case (2 x xs)
  show ?case
  proof (cases "b = x")
    case True
    then show ?thesis by auto
  next
    case False
    with 2(2) have "b \<in> set xs" by simp
    then have "b \<in> set (take (snd (utf8_head (ord x) xs)) xs) \<or>
        b \<in> set (drop (snd (utf8_head (ord x) xs)) xs)"
      by (metis Un_iff append_take_drop_id set_append)
    with assms(2) utf8_head_conts [of b "ord x" xs]
    have "b \<in> set (drop (snd (utf8_head (ord x) xs)) xs)" by auto
    with 2(1) show ?thesis by auto
  qed
qed

lemma decode_ascii_byte:
  assumes "b \<in> set s" "ord b < 128"
  shows "ord b \<in> set (decode s)"
proof -
  from assms(2) have "\<not> is_continuation b" by (simp add: is_continuation_def ord_def)
  from decode_head [OF assms(1) this] assms(2) show ?thesis by (simp add: utf8_head_ascii)
qed

lemma utf8_head_kanji:
  assumes "228 \<le> n" "n \<le> 230"
  shows "16384 \<le> fst (utf8_head n bs) \<and> fst (utf8_head n bs) \<le> 28671 \<or>
         56320 \<le> fst (utf8_head n bs) \<and> fst (utf8_head n bs) \<le> 57343"
proof (cases "snd (utf8_head n bs) = 0")
  case True
  with assms show ?thesis by (auto simp: utf8_head_def Let_def split: if_splits)
next
  case False
  with assms have k: "2 \<le> length bs" "\<forall>c\<in>set (take 2 bs). is_continuation c"
    and v: "utf8_head n bs = (foldl (\<lambda>a c. a * 64 + (ord c - 128)) (n - 224) (take 2 bs), 2)"
    by (auto simp: utf8_head_def Let_def split: if_splits)
  from k(1) obtain c1 c2 r where bs: "bs = c1 # c2 # r"
    by (cases bs; cases "tl bs") auto
  with k(2) have c: "128 \<le> ord c1" "ord c1 < 192" "128 \<le> ord c2" "ord c2 < 192"
    by (auto simp: is_continuation_def ord_def)
  from v bs have "fst (utf8_head n bs) = ((n - 224) * 64 + (ord c1 - 128)) * 64 + (ord c2 - 128)"
    by simp
  with assms c show ?thesis by auto
qed

lemma decode_ascii: "\<forall>c\<in>set s. ord c < 128 \<Longrightarrow> decode s = map ord s"
  by (induction s) (simp_all add: utf8_head_ascii)

lemma contains_set: "contains s sub \<Longrightarrow> set sub \<subseteq> set s"
proof (induction s)
  case Nil
  then show ?case by simp
next
  case (Cons c cs)
  from Cons.prems consider "take (length sub) (c # cs) = sub" | "contains cs sub" by auto
  then show ?case
  proof cases
    case 1
    then have "set sub = set (take (length sub) (c # cs))" by simp
    also have "\<dots> \<subseteq> set (c # cs)" by (rule set_take_subset)
    finally show ?thesis .
  next
    case 2
    with Cons.IH show ?thesis by auto
  qed
qed

lemma marker_code_point:
  assumes "contains s m"
    "m \<in> {reiwa_kanji, ''Reiwa'', heisei_kanji, ''Heisei'', showa_kanji, ''Showa''}"
  shows "\<exists>c\<in>set (decode s). \<not> isspace c \<and> digit_of c = None \<and> c \<noteq> 43 \<and> c \<noteq> 45 \<and> c \<noteq> 95"
proof -
  from assms(1) have sub: "set m \<subseteq> set s" by (rule contains_set)
  from assms(2) consider "hd m \<in> set m" "ord (hd m) \<in> {82, 72, 83}"
    | "hd m \<in> set m" "228 \<le> ord (hd m)" "ord (hd m) \<le> 230"
    by (auto simp: reiwa_kanji_def heisei_kanji_def showa_kanji_def ord_def)
  then show ?thesis
  proof cases
    case 1
    with sub decode_ascii_byte [of "hd m" s] have "ord (hd m) \<in> set (decode s)" by auto
    moreover from 1(2) have "\<not> isspace (ord (hd m))" "digit_of (ord (hd m)) = None"
      by (auto simp: isspace_ascii digit_of_ascii ascii_digit_def)
    ultimately show ?thesis using 1(2) by auto
  next
    case 2
    then have "\<not> is_continuation (hd m)" by (simp add: is_continuation_def ord_def)
    with 2(1) sub decode_head [of "hd m" s] obtain bs where
      "fst (utf8_head (ord (hd m)) bs) \<in> set (decode s)" by auto
    moreover from utf8_head_kanji [OF 2(2,3), of bs] kanji_no_digit_space
    have "\<not> isspace (fst (utf8_head (ord (hd m)) bs)) \<and> digit_of (fst (utf8_head (ord (hd m)) bs)) = None
      \<and> 16384 \<le> fst (utf8_head (ord (hd m)) bs)" by auto
    ultimately show ?thesis by (intro bexI [of _ "fst (utf8_head (ord (hd m)) bs)"]) auto
  qed
qed

lemma marker_no_int:
  assumes "contains s m"
    "m \<in> {reiwa_kanji, ''Reiwa'', heisei_kanji, ''Heisei'', showa_kanji, ''Showa''}"
  shows "int_of_str limit s = None"
proof (cases "int_of_str limit s")
  case None
  then show ?thesis .
next
  case (Some n)
  from marker_code_point [OF assms] obtain c where
    "c \<in> set (decode s)" "\<not> isspace c" "digit_of c = None" "c \<noteq> 43" "c \<noteq> 45" "c \<noteq> 95" by auto
  with int_of_text_chars [of limit "decode s" n c] Some show ?thesis
    by (simp add: int_of_str_def)
qed

lemma era_no_int: "spec_era_offset s = Some off \<Longrightarrow> int_of_str limit s = None"
  unfolding spec_era_offset_def
  using marker_no_int [of s reiwa_kanji] marker_no_int [of s "''Reiwa''"]
    marker_no_int [of s heisei_kanji] marker_no_int [of s "''Heisei''"]
    marker_no_int [of s showa_kanji] marker_no_int [of s "''Showa''"]
  by (auto split: if_splits)

lemma era_nonempty: "spec_era_offset s = Some off \<Longrightarrow> s \<noteq> []"
  by (auto simp: spec_era_offset_def reiwa_kanji_def heisei_kanji_def showa_kanji_def)

lemma era_year_offset:
  "era_year limit s = (case spec_era_offset s of None \<Rightarrow> None
     | Some off \<Rightarrow> (case digits_number limit s of None \<Rightarrow> None | Some num \<Rightarrow> Some (off + num)))"
  by (simp add: era_year_def spec_era_offset_def)

lemma parse_building_year_str:
  "parse_building_year fl (PStr s) =
     (if s = [] then Inr None
      else case int_of_str (max_str_digits fl) s of
          Some year \<Rightarrow> if 1900 \<le> year \<and> year \<le> 2100 then Inr (Some year)
                       else Inr (era_year (max_str_digits fl) s)
        | None \<Rightarrow> Inr (era_year (max_str_digits fl) s))"
  by (simp add: parse_building_year_def split: option.splits)
text \<open>A run of decimal digits is read as the number it writes.\<close>

lemma to_ascii_decimal:
  "\<forall>c\<in>set ds. digit_of c \<noteq> None \<Longrightarrow>
   to_ascii ds = map (\<lambda>c. 48 + (case digit_of c of None \<Rightarrow> 0 | Some d \<Rightarrow> d)) ds"
proof (induction ds)
  case Nil
  then show ?case by simp
next
  case (Cons x xs)
  then obtain d where d: "digit_of x = Some d" by auto
  show ?case
  proof (cases "x < 127")
    case True
    with d have "ascii_digit x" "d = x - 48" by (auto simp: digit_of_ascii split: if_splits)
    then have "48 + d = x" by (simp add: ascii_digit_def)
    with Cons True d show ?thesis by simp
  next
    case False
    from d isspace_no_digit [of x] have "\<not> isspace x" by auto
    with Cons False d show ?thesis by simp
  qed
qed

lemma foldl_digits_map:
  "foldl (\<lambda>acc c. 10 * acc + (c - 48)) (a::nat) (map (\<lambda>c. 48 + f c) ds) =
   foldl (\<lambda>acc c. 10 * acc + f c) a ds"
  by (induction ds arbitrary: a) simp_all

lemma digits_value_decimal:
  "digits_value (map (\<lambda>c. 48 + (case digit_of c of None \<Rightarrow> 0 | Some d \<Rightarrow> d)) ds) = spec_numeral ds"
  by (simp add: digits_value_def spec_numeral_def foldl_digits_map)

lemma dropWhile_none: "\<forall>x\<in>set xs. \<not> P x \<Longrightarrow> dropWhile P xs = xs"
  by (cases xs) auto

lemma c_strip_no_space: "\<forall>c\<in>set s. \<not> c_isspace c \<Longrightarrow> c_strip s = s"
  by (simp add: c_strip_def dropWhile_none)

lemma digitpart_digits: "ds \<noteq> [] \<Longrightarrow> \<forall>c\<in>set ds. ascii_digit c \<Longrightarrow> digitpart ds"
  by (induction ds rule: digitpart.induct) (auto simp: ord_simps ascii_digit_def)

lemma parse_int_digits:
  assumes "a \<noteq> []" "\<forall>c\<in>set a. ascii_digit c"
  shows "parse_int limit a =
    (if too_many_digits limit (length a) then None else Some (int (digits_value a)))"
proof -
  from assms(2) have "c_strip a = a"
    by (intro c_strip_no_space) (auto simp: ascii_digit_def c_isspace_def)
  moreover from assms obtain c cs where a: "a = c # cs" by (cases a) auto
  moreover from assms a have "c \<noteq> 45" "c \<noteq> 43" by (auto simp: ascii_digit_def)
  moreover from assms have "digitpart a" by (rule digitpart_digits)
  moreover from assms(2) have "filter ascii_digit a = a" by simp
  ultimately show ?thesis by (simp add: parse_int_def ord_simps)
qed

lemma int_of_text_decimal:
  assumes "ds \<noteq> []" "\<forall>c\<in>set ds. digit_of c \<noteq> None"
  shows "int_of_text limit ds =
    (if too_many_digits limit (length ds) then None else Some (int (spec_numeral ds)))"
proof -
  let ?a = "map (\<lambda>c. 48 + (case digit_of c of None \<Rightarrow> 0 | Some d \<Rightarrow> d)) ds"
  from assms(2) have a: "to_ascii ds = ?a" by (rule to_ascii_decimal)
  from assms(1) have "?a \<noteq> []" by simp
  moreover have "ascii_digit (48 + (case digit_of c of None \<Rightarrow> 0 | Some d \<Rightarrow> d))" for c
    using digit_of_less [of c] by (cases "digit_of c") (auto simp: ascii_digit_def)
  then have "\<forall>c\<in>set ?a. ascii_digit c" by auto
  ultimately have "parse_int limit ?a =
      (if too_many_digits limit (length ?a) then None else Some (int (digits_value ?a)))"
    by (rule parse_int_digits)
  with a show ?thesis by (simp add: int_of_text_def digits_value_decimal)
qed

lemma int_of_text_other_digit:
  assumes "c \<in> set ds" "isdigit c" "digit_of c = None"
  shows "int_of_text limit ds = None"
proof (cases "int_of_text limit ds")
  case None
  then show ?thesis .
next
  case (Some n)
  from assms(2,3) have "in_ranges c other_digit_ranges" by (simp add: isdigit_def)
  then have "\<not> isspace c" "127 \<le> c" using other_digit_not_space [of c] by auto
  with int_of_text_chars [OF Some assms(1)] assms(3) show ?thesis by auto
qed

lemma int_of_text_Nil: "int_of_text limit [] = None"
  by (simp add: int_of_text_def parse_int_def c_strip_def)

lemma digits_number_eq:
  "digits_number limit s =
     (if filter isdigit (decode s) = []
         \<or> \<not> list_all (\<lambda>c. digit_of c \<noteq> None) (filter isdigit (decode s))
         \<or> too_many_digits limit (length (filter isdigit (decode s)))
      then None else Some (int (spec_numeral (filter isdigit (decode s)))))"
proof -
  let ?ds = "filter isdigit (decode s)"
  consider "?ds = []" | "?ds \<noteq> []" "list_all (\<lambda>c. digit_of c \<noteq> None) ?ds"
    | "\<not> list_all (\<lambda>c. digit_of c \<noteq> None) ?ds" by blast
  then show ?thesis
  proof cases
    case 1
    then show ?thesis by (simp add: digits_number_def int_of_text_Nil)
  next
    case 2
    from 2(2) have "\<forall>c\<in>set ?ds. digit_of c \<noteq> None" by (simp add: list_all_iff)
    from int_of_text_decimal [OF 2(1) this, of limit] 2 show ?thesis
      by (simp add: digits_number_def)
  next
    case 3
    then obtain c where "c \<in> set ?ds" "digit_of c = None" by (auto simp: list_all_iff)
    moreover from this(1) have "isdigit c" by simp
    ultimately have "int_of_text limit ?ds = None" by (intro int_of_text_other_digit)
    with 3 show ?thesis by (simp add: digits_number_def)
  qed
qed

lemma c_strip_subset: "set (c_strip s) \<subseteq> set s"
proof -
  have "set (dropWhile c_isspace (rev (dropWhile c_isspace s))) \<subseteq> set (rev (dropWhile c_isspace s))"
    by (auto dest: set_dropWhileD)
  also have "\<dots> \<subseteq> set s" by (auto dest: set_dropWhileD)
  finally show ?thesis by (simp add: c_strip_def)
qed

lemma digitpart_has_digit: "digitpart cs \<Longrightarrow> \<exists>c\<in>set cs. ascii_digit c"
  by (induction cs rule: digitpart.induct) auto

lemma parse_int_has_digit:
  assumes "parse_int limit a = Some n"
  shows "\<exists>c\<in>set a. ascii_digit c"
proof -
  from assms obtain h t where ht: "c_strip a = h # t"
    by (cases "c_strip a") (auto simp: parse_int_def)
  from assms ht have "digitpart t \<or> digitpart (h # t)"
    by (auto simp: parse_int_def split: if_splits)
  then have "\<exists>c\<in>set (h # t). ascii_digit c"
    using digitpart_has_digit [of t] digitpart_has_digit [of "h # t"] by auto
  with ht c_strip_subset [of a] show ?thesis by auto
qed

lemma to_ascii_digit:
  "a \<in> set (to_ascii cs) \<Longrightarrow> ascii_digit a \<Longrightarrow> \<exists>c\<in>set cs. digit_of c \<noteq> None"
proof (induction cs)
  case Nil
  then show ?case by simp
next
  case (Cons x xs)
  show ?case
  proof (cases "digit_of x")
    case (Some d)
    then show ?thesis by simp
  next
    case None
    show ?thesis
    proof (cases "x < 127")
      case True
      with None have "\<not> ascii_digit x" by (simp add: digit_of_ascii split: if_splits)
      with Cons True show ?thesis by auto
    next
      case False
      with Cons None show ?thesis by (auto simp: ascii_digit_def split: if_splits)
    qed
  qed
qed

lemma int_of_str_has_digit:
  assumes "int_of_str limit s = Some n"
  shows "filter isdigit (decode s) \<noteq> []"
proof -
  from assms parse_int_has_digit [of limit "to_ascii (decode s)" n] obtain a where
    "a \<in> set (to_ascii (decode s))" "ascii_digit a"
    by (auto simp: int_of_str_def int_of_text_def)
  with to_ascii_digit [of a "decode s"] obtain c where "c \<in> set (decode s)" "digit_of c \<noteq> None"
    by auto
  then show ?thesis by (auto simp: filter_empty_conv isdigit_def)
qed

lemma int_of_str_plain:
  assumes "spec_plain_year s"
  shows "int_of_str limit s = Some (int (spec_numeral (decode s)))"
proof -
  from assms have len: "length s = 4" and dig: "\<forall>c\<in>set s. ascii_digit (ord c)"
    by (simp_all add: spec_plain_year_def list_all_iff)
  from dig have "\<forall>c\<in>set s. ord c < 128" by (auto simp: ascii_digit_def)
  then have d: "decode s = map ord s" by (rule decode_ascii)
  from len have "decode s \<noteq> []" by (auto simp: d)
  moreover from dig have "\<forall>c\<in>set (decode s). digit_of c \<noteq> None"
    by (auto simp: d digit_of_ascii ascii_digit_def)
  ultimately have "int_of_text limit (decode s) =
      (if too_many_digits limit (length (decode s)) then None
       else Some (int (spec_numeral (decode s))))"
    by (rule int_of_text_decimal)
  with len show ?thesis by (simp add: int_of_str_def d too_many_digits_def)
qed
text \<open>The definitions that evaluate the string functions on a literal.\<close>

lemmas string_eval =
  utf8_head_def Let_def ord_def is_continuation_def isdigit_def digit_of_def
  decimal_ranges_def in_ranges_def other_digit_ranges_def isspace_def space_ranges_def
  int_of_str_def int_of_text_def parse_int_def c_strip_def c_isspace_def ascii_digit_def
  digits_value_def too_many_digits_def strip_def

text \<open>
  Claim C10. For every string that contains an era marker, the numeral is read from the
  concatenation of all the digit characters of the string (\<^verbatim>\<open>str.isdigit\<close>), in order, and
  the result is the era's offset plus that number, which is the decimal number that the
  digits write. The result is \<^verbatim>\<open>None\<close> when \<^verbatim>\<open>int\<close> rejects the concatenation: no digit at
  all, a digit that is not a decimal digit, or more digits than the interpreter's limit.
  A Reiwa string with the digits 5 and 3 gives 2018 + 53; the second year of Heisei in
  a full-width digit gives 1990; a Reiwa 5 followed by a superscript two gives \<^verbatim>\<open>None\<close>.
\<close>

theorem parse_building_year_all_digits:
  "(spec_era_offset s = Some off \<longrightarrow>
      parse_building_year fl (PStr s) =
        Inr (case int_of_text (max_str_digits fl) (filter isdigit (decode s)) of
               None \<Rightarrow> None | Some num \<Rightarrow> Some (off + num)) \<and>
      parse_building_year fl (PStr s) =
        Inr (if filter isdigit (decode s) = []
                \<or> \<not> list_all (\<lambda>c. digit_of c \<noteq> None) (filter isdigit (decode s))
                \<or> too_many_digits (max_str_digits fl) (length (filter isdigit (decode s)))
             then None
             else Some (off + int (spec_numeral (filter isdigit (decode s)))))) \<and>
   parse_building_year fl (PStr ''Reiwa 5.3'') = Inr (Some (2018 + 53)) \<and>
   filter isdigit (decode ''Reiwa 5.3'') = ascii ''53'' \<and>
   parse_building_year fl (PStr heisei_2_nen) = Inr (Some (1988 + 2)) \<and>
   parse_building_year fl (PStr (''Reiwa 5'' @ superscript_two)) = Inr None"
proof -
  have era: "parse_building_year fl (PStr s) =
        Inr (case int_of_text (max_str_digits fl) (filter isdigit (decode s)) of
               None \<Rightarrow> None | Some num \<Rightarrow> Some (off + num))"
    if "spec_era_offset s = Some off"
    using that era_no_int [OF that, of "max_str_digits fl"] era_nonempty [OF that]
    by (simp add: parse_building_year_str era_year_offset digits_number_def)
  have num: "parse_building_year fl (PStr s) =
        Inr (if filter isdigit (decode s) = []
                \<or> \<not> list_all (\<lambda>c. digit_of c \<noteq> None) (filter isdigit (decode s))
                \<or> too_many_digits (max_str_digits fl) (length (filter isdigit (decode s)))
             then None
             else Some (off + int (spec_numeral (filter isdigit (decode s)))))"
    if "spec_era_offset s = Some off"
    using that era_no_int [OF that, of "max_str_digits fl"] era_nonempty [OF that]
    by (simp add: parse_building_year_str era_year_offset digits_number_eq)
  note ev = parse_building_year_str era_year_def digits_number_def string_eval reiwa_kanji_def
    heisei_kanji_def
  have e1: "parse_building_year fl (PStr ''Reiwa 5.3'') = Inr (Some (2018 + 53))"
    by (simp add: ev)
  have e2: "filter isdigit (decode ''Reiwa 5.3'') = ascii ''53''"
    by (simp add: string_eval ascii_def)
  have e3: "parse_building_year fl (PStr heisei_2_nen) = Inr (Some (1988 + 2))"
    by (simp add: ev heisei_2_nen_def)
  have e4: "parse_building_year fl (PStr (''Reiwa 5'' @ superscript_two)) = Inr None"
    by (simp add: ev superscript_two_def)
  from era num e1 e2 e3 e4 show ?thesis by blast
qed

theorem parse_building_year_all_digits_witness:
  "spec_era_offset (heisei_kanji @ ''2-11'') = Some 1988 \<and>
   parse_building_year example_floats (PStr (heisei_kanji @ ''2-11'')) = Inr (Some (1988 + 211))"
proof -
  have off: "spec_era_offset (heisei_kanji @ ''2-11'') = Some 1988"
    by (simp add: spec_era_offset_def heisei_kanji_def reiwa_kanji_def)
  from parse_building_year_all_digits
    [of "heisei_kanji @ ''2-11''" 1988 example_floats, THEN conjunct1, rule_format, OF off,
      THEN conjunct2]
  have "parse_building_year example_floats (PStr (heisei_kanji @ ''2-11'')) =
      Inr (Some (1988 + 211))"
    by (simp add: heisei_kanji_def string_eval spec_numeral_def example_floats_def)
  with off show ?thesis by (rule conjI)
qed

text \<open>
  Claim C7, as the code has it. The first path is \<^verbatim>\<open>int\<close> of the string: every integer that
  \<^verbatim>\<open>int\<close> reads in [1900, 2100] is returned. That is a plain four-digit year, and also such
  a year written with a sign, surrounding white space, leading zeros, single underscores
  between digits, or the decimal digits of another script. Otherwise a string with an
  era marker gives the era's offset plus the number that \<^verbatim>\<open>int\<close> reads from its digit
  characters (\<^verbatim>\<open>None\<close> when \<^verbatim>\<open>int\<close> rejects them), a string without a marker gives \<^verbatim>\<open>None\<close>,
  and a string without a digit gives \<^verbatim>\<open>None\<close>. Reiwa 5 is 2023, Heisei 5 is 1993, Showa
  62 is 1987, and \<^verbatim>\<open>"1987"\<close> is 1987.
\<close>

theorem parse_building_year_resolution:
  "(spec_plain_year s \<and> 1900 \<le> int (spec_numeral (decode s))
      \<and> int (spec_numeral (decode s)) \<le> 2100 \<longrightarrow>
      parse_building_year fl (PStr s) = Inr (Some (int (spec_numeral (decode s))))) \<and>
   (int_of_str (max_str_digits fl) s = Some y \<and> 1900 \<le> y \<and> y \<le> 2100 \<longrightarrow>
      parse_building_year fl (PStr s) = Inr (Some y)) \<and>
   (spec_era_offset s = Some off \<longrightarrow>
      parse_building_year fl (PStr s) =
        Inr (case digits_number (max_str_digits fl) s of
               None \<Rightarrow> None | Some num \<Rightarrow> Some (off + num))) \<and>
   (spec_era_offset s = None \<and>
      (\<forall>year. int_of_str (max_str_digits fl) s = Some year \<longrightarrow> \<not> (1900 \<le> year \<and> year \<le> 2100)) \<longrightarrow>
      parse_building_year fl (PStr s) = Inr None) \<and>
   (filter isdigit (decode s) = [] \<longrightarrow> parse_building_year fl (PStr s) = Inr None) \<and>
   parse_building_year fl (PStr ''Reiwa 5'') = Inr (Some 2023) \<and>
   parse_building_year fl (PStr ''Heisei 5'') = Inr (Some 1993) \<and>
   parse_building_year fl (PStr ''Showa 62'') = Inr (Some 1987) \<and>
   parse_building_year fl (PStr (reiwa_kanji @ ''5'')) = Inr (Some 2023) \<and>
   parse_building_year fl (PStr ''1987'') = Inr (Some 1987) \<and>
   parse_building_year fl (PStr '' 2005'') = Inr (Some 2005) \<and>
   parse_building_year fl (PStr ''02005'') = Inr (Some 2005) \<and>
   parse_building_year fl (PStr ''2_005'') = Inr (Some 2005) \<and>
   parse_building_year fl (PStr fullwidth_2005) = Inr (Some 2005) \<and>
   parse_building_year fl (PStr (CHR 0x1F # ''2005'')) = Inr None"
proof -
  have plain: "parse_building_year fl (PStr s) = Inr (Some (int (spec_numeral (decode s))))"
    if "spec_plain_year s" "1900 \<le> int (spec_numeral (decode s))"
      "int (spec_numeral (decode s)) \<le> 2100"
  proof -
    from that(1) have "s \<noteq> []" by (auto simp: spec_plain_year_def)
    with int_of_str_plain [OF that(1), of "max_str_digits fl"] that(2,3) show ?thesis
      by (simp add: parse_building_year_str)
  qed
  have read: "parse_building_year fl (PStr s) = Inr (Some y)"
    if "int_of_str (max_str_digits fl) s = Some y" "1900 \<le> y" "y \<le> 2100"
  proof -
    from int_of_str_has_digit [OF that(1)] have "s \<noteq> []" by auto
    with that show ?thesis by (simp add: parse_building_year_str)
  qed
  have era: "parse_building_year fl (PStr s) =
      Inr (case digits_number (max_str_digits fl) s of
             None \<Rightarrow> None | Some num \<Rightarrow> Some (off + num))"
    if "spec_era_offset s = Some off"
    using that era_no_int [OF that, of "max_str_digits fl"] era_nonempty [OF that]
    by (simp add: parse_building_year_str era_year_offset)
  have nomark: "parse_building_year fl (PStr s) = Inr None"
    if "spec_era_offset s = None"
      "\<forall>year. int_of_str (max_str_digits fl) s = Some year \<longrightarrow> \<not> (1900 \<le> year \<and> year \<le> 2100)"
    using that by (auto simp: parse_building_year_str era_year_offset split: option.splits)
  have nodigit: "parse_building_year fl (PStr s) = Inr None" if "filter isdigit (decode s) = []"
  proof -
    from that int_of_str_has_digit [of "max_str_digits fl" s]
    have "int_of_str (max_str_digits fl) s = None"
      by (cases "int_of_str (max_str_digits fl) s") auto
    with that show ?thesis
      by (simp add: parse_building_year_str era_year_offset digits_number_def int_of_text_Nil
          split: option.splits)
  qed
  note ev = parse_building_year_str era_year_def digits_number_def string_eval reiwa_kanji_def
    heisei_kanji_def
  have e1: "parse_building_year fl (PStr ''Reiwa 5'') = Inr (Some 2023)" by (simp add: ev)
  have e2: "parse_building_year fl (PStr ''Heisei 5'') = Inr (Some 1993)" by (simp add: ev)
  have e3: "parse_building_year fl (PStr ''Showa 62'') = Inr (Some 1987)" by (simp add: ev)
  have e4: "parse_building_year fl (PStr (reiwa_kanji @ ''5'')) = Inr (Some 2023)" by (simp add: ev)
  have e5: "parse_building_year fl (PStr ''1987'') = Inr (Some 1987)" by (simp add: ev)
  have e6: "parse_building_year fl (PStr '' 2005'') = Inr (Some 2005)" by (simp add: ev)
  have e7: "parse_building_year fl (PStr ''02005'') = Inr (Some 2005)" by (simp add: ev)
  have e8: "parse_building_year fl (PStr ''2_005'') = Inr (Some 2005)" by (simp add: ev)
  have e9: "parse_building_year fl (PStr fullwidth_2005) = Inr (Some 2005)"
    by (simp add: ev fullwidth_2005_def)
  have e10: "parse_building_year fl (PStr (CHR 0x1F # ''2005'')) = Inr None"
    by (simp add: ev showa_kanji_def)
  from plain read era nomark nodigit e1 e2 e3 e4 e5 e6 e7 e8 e9 e10 show ?thesis by blast
qed

theorem parse_building_year_resolution_witness:
  "parse_building_year example_floats (PStr ''2005'') = Inr (Some 2005) \<and>
   parse_building_year example_floats (PStr '' 2_005 '') = Inr (Some 2005) \<and>
   parse_building_year example_floats (PStr (showa_kanji @ ''62'')) = Inr (Some 1987) \<and>
   parse_building_year example_floats (PStr ''1850'') = Inr None \<and>
   parse_building_year example_floats (PStr ''before the war'') = Inr None"
proof -
  note ev = string_eval spec_era_offset_def spec_plain_year_def spec_numeral_def
    digits_number_def reiwa_kanji_def heisei_kanji_def showa_kanji_def example_floats_def
  note t = parse_building_year_resolution [where fl = example_floats]
  from t [of "''2005''", THEN conjunct1]
  have a: "parse_building_year example_floats (PStr ''2005'') = Inr (Some 2005)"
    by (simp add: ev)
  from t [of "'' 2_005 ''" 2005, THEN conjunct2, THEN conjunct1]
  have b: "parse_building_year example_floats (PStr '' 2_005 '') = Inr (Some 2005)"
    by (simp add: ev)
  from t [of "showa_kanji @ ''62''" _ 1925, THEN conjunct2, THEN conjunct2, THEN conjunct1]
  have c: "parse_building_year example_floats (PStr (showa_kanji @ ''62'')) = Inr (Some 1987)"
    by (simp add: ev)
  from t [of "''1850''", THEN conjunct2, THEN conjunct2, THEN conjunct2, THEN conjunct1]
  have d: "parse_building_year example_floats (PStr ''1850'') = Inr None"
    by (simp add: ev)
  from t [of "''before the war''", THEN conjunct2, THEN conjunct2, THEN conjunct2, THEN conjunct2,
      THEN conjunct1]
  have e: "parse_building_year example_floats (PStr ''before the war'') = Inr None"
    by (simp add: ev)
  from a b c d e show ?thesis by blast
qed

text \<open>
  Claim C7 as stated fails: \<^verbatim>\<open>"+2005"\<close> is not a plain four-digit year and holds no era
  marker, and the result is not \<^verbatim>\<open>None\<close> but 2005, since \<^verbatim>\<open>int\<close> reads the sign.
\<close>

theorem parse_building_year_signed_year:
  "\<not> spec_plain_year ''+2005'' \<and> spec_era_offset ''+2005'' = None \<and>
   parse_building_year example_floats (PStr ''+2005'') = Inr (Some 2005)"
  by (simp add: spec_plain_year_def spec_era_offset_def parse_building_year_str era_year_def
      string_eval reiwa_kanji_def heisei_kanji_def showa_kanji_def example_floats_def)

section \<open>The record transformer\<close>

lemma transform_record_ints:
  assumes "transform_record fl record prefecture_code year quarter = Inr out"
  shows "\<exists>tp up cr fr.
      parse_numeric fl (dict_get record ''TradePrice'') = Inr tp \<and>
      parse_numeric fl (dict_get record ''UnitPrice'') = Inr up \<and>
      parse_numeric fl (dict_get record ''CoverageRatio'') = Inr cr \<and>
      parse_numeric fl (dict_get record ''FloorAreaRatio'') = Inr fr \<and>
      Inr (the (out ''trade_price'')) = int_if_truthy tp \<and>
      Inr (the (out ''unit_price'')) = int_if_truthy up \<and>
      Inr (the (out ''coverage_ratio'')) = int_if_truthy cr \<and>
      Inr (the (out ''floor_area_ratio'')) = int_if_truthy fr \<and>
      out ''trade_price'' \<noteq> None \<and> out ''unit_price'' \<noteq> None \<and>
      out ''coverage_ratio'' \<noteq> None \<and> out ''floor_area_ratio'' \<noteq> None"
  using assms
  unfolding transform_record_def bind_err_def Let_def
  by (auto split: sum.splits)


text \<open>
  Claim C9. Whenever \<^verbatim>\<open>transform_record\<close> returns a record, a \<^verbatim>\<open>TradePrice\<close>, \<^verbatim>\<open>UnitPrice\<close>,
  \<^verbatim>\<open>CoverageRatio\<close> or \<^verbatim>\<open>FloorAreaRatio\<close> that parses to the number zero is stored as
  \<^verbatim>\<open>None\<close>, which is also what an absent field is stored as.
\<close>

theorem transform_record_zero_is_null:
  assumes "transform_record fl record prefecture_code year quarter = Inr out"
  shows
    "(parses_to_zero fl (dict_get record ''TradePrice'') \<longrightarrow> out ''trade_price'' = Some PNone) \<and>
     (parses_to_zero fl (dict_get record ''UnitPrice'') \<longrightarrow> out ''unit_price'' = Some PNone) \<and>
     (parses_to_zero fl (dict_get record ''CoverageRatio'') \<longrightarrow>
        out ''coverage_ratio'' = Some PNone) \<and>
     (parses_to_zero fl (dict_get record ''FloorAreaRatio'') \<longrightarrow>
        out ''floor_area_ratio'' = Some PNone) \<and>
     (dict_get record ''TradePrice'' = PNone \<longrightarrow> out ''trade_price'' = Some PNone) \<and>
     (dict_get record ''UnitPrice'' = PNone \<longrightarrow> out ''unit_price'' = Some PNone) \<and>
     (dict_get record ''CoverageRatio'' = PNone \<longrightarrow> out ''coverage_ratio'' = Some PNone) \<and>
     (dict_get record ''FloorAreaRatio'' = PNone \<longrightarrow> out ''floor_area_ratio'' = Some PNone)"
proof -
  from transform_record_ints [OF assms] obtain tp up cr fr where
    p: "parse_numeric fl (dict_get record ''TradePrice'') = Inr tp"
      "parse_numeric fl (dict_get record ''UnitPrice'') = Inr up"
      "parse_numeric fl (dict_get record ''CoverageRatio'') = Inr cr"
      "parse_numeric fl (dict_get record ''FloorAreaRatio'') = Inr fr"
    and i: "Inr (the (out ''trade_price'')) = int_if_truthy tp"
      "Inr (the (out ''unit_price'')) = int_if_truthy up"
      "Inr (the (out ''coverage_ratio'')) = int_if_truthy cr"
      "Inr (the (out ''floor_area_ratio'')) = int_if_truthy fr"
    and d: "out ''trade_price'' \<noteq> None" "out ''unit_price'' \<noteq> None"
      "out ''coverage_ratio'' \<noteq> None" "out ''floor_area_ratio'' \<noteq> None"
    by blast
  have zero: "v = Some PNone"
    if "parse_numeric fl x = Inr n" "Inr (the v) = int_if_truthy n" "v \<noteq> None"
      "parses_to_zero fl x \<or> x = PNone" for x n and v :: "pyval option"
  proof -
    from that(1,4) have "n = Some (Finite 0) \<or> n = Some NegZero \<or> n = None"
      by (auto simp: parses_to_zero_def parse_numeric_def)
    with that(2) have "the v = PNone" by (auto simp: int_if_truthy_def)
    with that(3) show ?thesis by auto
  qed
  from zero [OF p(1) i(1) d(1)] zero [OF p(2) i(2) d(2)] zero [OF p(3) i(3) d(3)]
    zero [OF p(4) i(4) d(4)]
  show ?thesis by blast
qed

lemma transform_zero_record:
  "\<exists>out. transform_record example_floats zero_record ''13'' 2023 (Some 1) = Inr out"
  by (simp add: transform_record_def zero_record_def bind_err_def dict_get_def dict_get_default_def
      len_of_def py_len_def parse_numeric_def float_of_int_def float_of_text_def parse_float_def
      lower_def decimal_value_def split_at_def ascii_def string_eval parse_building_year_def
      int_if_truthy_def)

theorem transform_record_zero_is_null_witness:
  "\<exists>out. transform_record example_floats zero_record ''13'' 2023 (Some 1) = Inr out \<and>
     parses_to_zero example_floats (dict_get zero_record ''TradePrice'') \<and>
     parses_to_zero example_floats (dict_get zero_record ''UnitPrice'') \<and>
     parses_to_zero example_floats (dict_get zero_record ''CoverageRatio'') \<and>
     parses_to_zero example_floats (dict_get zero_record ''FloorAreaRatio'') \<and>
     out ''trade_price'' = Some PNone \<and> out ''unit_price'' = Some PNone \<and>
     out ''coverage_ratio'' = Some PNone \<and> out ''floor_area_ratio'' = Some PNone"
proof -
  from transform_zero_record obtain out where
    out: "transform_record example_floats zero_record ''13'' 2023 (Some 1) = Inr out" ..
  have z: "parses_to_zero example_floats (dict_get zero_record ''TradePrice'')"
    "parses_to_zero example_floats (dict_get zero_record ''UnitPrice'')"
    "parses_to_zero example_floats (dict_get zero_record ''CoverageRatio'')"
    "parses_to_zero example_floats (dict_get zero_record ''FloorAreaRatio'')"
    by (simp_all add: parses_to_zero_def zero_record_def dict_get_def parse_numeric_def
        float_of_int_def float_of_text_def parse_float_def lower_def decimal_value_def
        split_at_def ascii_def string_eval)
  from transform_record_zero_is_null [OF out] z out show ?thesis by blast
qed

text \<open>
  Claim C4 fails on the code. A \<^verbatim>\<open>MunicipalityCode\<close> that is a number reaches \<^verbatim>\<open>len\<close> and
  raises \<^verbatim>\<open>TypeError\<close>; a \<^verbatim>\<open>TradePrice\<close> that reads \<^verbatim>\<open>nan\<close> is parsed to a NaN, which is
  true, and \<^verbatim>\<open>int\<close> of it raises \<^verbatim>\<open>ValueError\<close>.
\<close>

theorem transform_record_raises:
  "transform_record fl [''MunicipalityCode'' \<mapsto> PInt 13101] ''13'' 2023 (Some 1) = Inl TypeError \<and>
   transform_record fl [''TradePrice'' \<mapsto> PStr ''nan''] ''13'' 2023 (Some 1) = Inl ValueError"
  by (simp add: transform_record_def dict_get_default_def dict_get_def len_of_def bind_err_def
      parse_numeric_def float_of_text_def parse_float_def lower_def ascii_def string_eval
      parse_building_year_def int_if_truthy_def)

section \<open>The content hash\<close>

lemma nibble_less: "unat ((w::32 word) AND 15) < 16"
proof -
  have "w AND mask 4 < 2 ^ 4" by (rule and_mask_less') simp
  then have "unat (w AND mask 4) < unat (2 ^ 4 :: 32 word)" by (rule unat_mono)
  then show ?thesis by (simp add: mask_eq_exp_minus_1)
qed

lemma length_hex_word: "length (hex_word w) = 8"
  by (simp add: hex_word_def)

lemma hex_digit_in: "n < 16 \<Longrightarrow> ''0123456789abcdef'' ! n \<in> set ''0123456789abcdef''"
  by (rule nth_mem) simp

lemma set_hex_word: "set (hex_word w) \<subseteq> set ''0123456789abcdef''"
  unfolding hex_word_def using hex_digit_in [OF nibble_less] by auto

lemma length_sha256_hexdigest: "length (sha256_hexdigest data) = 64"
  by (simp add: sha256_hexdigest_def Let_def length_hex_word split: prod.splits)

lemma set_sha256_hexdigest: "set (sha256_hexdigest data) \<subseteq> set ''0123456789abcdef''"
  unfolding sha256_hexdigest_def Let_def using set_hex_word
  by (auto split: prod.splits simp del: set_simps)

lemma key_fields_eq_hash:
  "key_fields r1 = key_fields r2 \<Longrightarrow> generate_record_hash fl r1 = generate_record_hash fl r2"
  by (simp add: generate_record_hash_def key_string_def)

text \<open>
  Claim C5, as the code has it. The hash is a function of the seven key fields only,
  through their \<^verbatim>\<open>str\<close> renderings joined with a bar: records that agree on
  \<^verbatim>\<open>MunicipalityCode\<close>, \<^verbatim>\<open>DistrictName\<close>, \<^verbatim>\<open>TradePrice\<close>, \<^verbatim>\<open>Area\<close>, \<^verbatim>\<open>Period\<close>, \<^verbatim>\<open>BuildingYear\<close> and
  \<^verbatim>\<open>Type\<close> have equal hashes whatever their other fields are; so have records whose
  joined strings are equal, whether or not their key fields are; and the hash is 32
  lower-case hexadecimal characters, the start of the SHA-256 digest of the joined string.
\<close>

theorem generate_record_hash_key_fields:
  "((\<forall>k \<in> set [''MunicipalityCode'', ''DistrictName'', ''TradePrice'', ''Area'', ''Period'',
                  ''BuildingYear'', ''Type'']. dict_get r1 k = dict_get r2 k) \<longrightarrow>
      generate_record_hash fl r1 = generate_record_hash fl r2) \<and>
   (key_string fl r1 = key_string fl r2 \<longrightarrow>
      generate_record_hash fl r1 = generate_record_hash fl r2) \<and>
   generate_record_hash fl r1 = take 32 (sha256_hexdigest (key_string fl r1)) \<and>
   length (generate_record_hash fl r1) = 32 \<and>
   set (generate_record_hash fl r1) \<subseteq> set ''0123456789abcdef''"
proof (intro conjI impI)
  assume "\<forall>k \<in> set [''MunicipalityCode'', ''DistrictName'', ''TradePrice'', ''Area'', ''Period'',
                  ''BuildingYear'', ''Type'']. dict_get r1 k = dict_get r2 k"
  then have "key_fields r1 = key_fields r2" by (simp add: key_fields_def)
  then show "generate_record_hash fl r1 = generate_record_hash fl r2" by (rule key_fields_eq_hash)
next
  assume "key_string fl r1 = key_string fl r2"
  then show "generate_record_hash fl r1 = generate_record_hash fl r2"
    by (simp add: generate_record_hash_def)
next
  show "generate_record_hash fl r1 = take 32 (sha256_hexdigest (key_string fl r1))"
    by (simp add: generate_record_hash_def)
next
  show "length (generate_record_hash fl r1) = 32"
    by (simp add: generate_record_hash_def length_sha256_hexdigest)
next
  have "set (generate_record_hash fl r1) \<subseteq> set (sha256_hexdigest (key_string fl r1))"
    unfolding generate_record_hash_def by (rule set_take_subset)
  also have "\<dots> \<subseteq> set ''0123456789abcdef''" by (rule set_sha256_hexdigest)
  finally show "set (generate_record_hash fl r1) \<subseteq> set ''0123456789abcdef''" .
qed

theorem generate_record_hash_key_fields_witness:
  "dict_get (ginza_a(''Remarks'' \<mapsto> PStr ''corner lot'')) ''Remarks'' \<noteq> dict_get ginza_a ''Remarks'' \<and>
   generate_record_hash example_floats (ginza_a(''Remarks'' \<mapsto> PStr ''corner lot'')) =
     generate_record_hash example_floats ginza_a \<and>
   generate_record_hash example_floats ginza_a = generate_record_hash example_floats ginza_b"
proof -
  note t = generate_record_hash_key_fields [where fl = example_floats]
  have a: "dict_get (ginza_a(''Remarks'' \<mapsto> PStr ''corner lot'')) ''Remarks'' \<noteq>
      dict_get ginza_a ''Remarks''"
    by (simp add: dict_get_def ginza_a_def)
  from t [of "ginza_a(''Remarks'' \<mapsto> PStr ''corner lot'')" ginza_a, THEN conjunct1]
  have b: "generate_record_hash example_floats (ginza_a(''Remarks'' \<mapsto> PStr ''corner lot'')) =
     generate_record_hash example_floats ginza_a"
    by (simp add: dict_get_def)
  from t [of ginza_a ginza_b, THEN conjunct2, THEN conjunct1]
  have c: "generate_record_hash example_floats ginza_a = generate_record_hash example_floats ginza_b"
    by (simp add: key_string_def key_fields_def dict_get_def ginza_a_def ginza_b_def)
  from a b c show ?thesis by blast
qed

text \<open>
  Claim C5 as stated fails: two records that differ in two key fields, the district
  name and the trade price, have the same joined string and so the same hash.
\<close>

theorem generate_record_hash_collision:
  "dict_get ginza_a ''DistrictName'' \<noteq> dict_get ginza_b ''DistrictName'' \<and>
   dict_get ginza_a ''TradePrice'' \<noteq> dict_get ginza_b ''TradePrice'' \<and>
   generate_record_hash example_floats ginza_a = generate_record_hash example_floats ginza_b"
  by (simp add: generate_record_hash_def key_string_def key_fields_def dict_get_def
      ginza_a_def ginza_b_def)

section \<open>The loader\<close>

lemma ensure_municipality_exists_mono:
  "ensure_municipality_exists conn code pc name = Inr conn' \<Longrightarrow>
   fst ` set (municipalities conn) \<subseteq> fst ` set (municipalities conn') \<and>
   transactions conn' = transactions conn"
  by (auto simp: ensure_municipality_exists_def split: if_splits sum.splits)

lemma ensure_municipalities_mono:
  "ensure_municipalities conn seen records pc = Inr conn' \<Longrightarrow>
   fst ` set (municipalities conn) \<subseteq> fst ` set (municipalities conn') \<and>
   transactions conn' = transactions conn"
proof (induction records arbitrary: conn seen)
  case Nil
  then show ?case by simp
next
  case (Cons r records)
  let ?c = "dict_get r ''municipality_code''"
  show ?case
  proof (cases "truthy ?c \<and> ?c \<notin> set seen")
    case True
    with Cons.prems obtain c1 where
      c1: "ensure_municipality_exists conn ?c pc
             (dict_get_default r ''municipality_name'' (PStr [])) = Inr c1"
      and rest: "ensure_municipalities c1 (?c # seen) records pc = Inr conn'"
      by (auto simp: Let_def split: sum.splits)
    from ensure_municipality_exists_mono [OF c1] Cons.IH [OF rest] show ?thesis by auto
  next
    case False
    with Cons.prems have "ensure_municipalities conn seen records pc = Inr conn'"
      by (auto simp: Let_def)
    from Cons.IH [OF this] show ?thesis .
  qed
qed

lemma ensure_municipality_exists_again:
  assumes "ensure_municipality_exists conn code pc name = Inr c1"
    and "fst ` set (municipalities c1) \<subseteq> fst ` set (municipalities t)"
  shows "ensure_municipality_exists t code pc name = Inr t"
  using assms
  by (auto simp: ensure_municipality_exists_def split: if_splits sum.splits)

lemma ensure_municipalities_again:
  "ensure_municipalities conn seen records pc = Inr conn' \<Longrightarrow>
   fst ` set (municipalities conn') \<subseteq> fst ` set (municipalities t) \<Longrightarrow>
   ensure_municipalities t seen records pc = Inr t"
proof (induction records arbitrary: conn seen)
  case Nil
  then show ?case by simp
next
  case (Cons r records)
  let ?c = "dict_get r ''municipality_code''"
  show ?case
  proof (cases "truthy ?c \<and> ?c \<notin> set seen")
    case True
    with Cons.prems(1) obtain c1 where
      c1: "ensure_municipality_exists conn ?c pc
             (dict_get_default r ''municipality_name'' (PStr [])) = Inr c1"
      and rest: "ensure_municipalities c1 (?c # seen) records pc = Inr conn'"
      by (auto simp: Let_def split: sum.splits)
    from ensure_municipalities_mono [OF rest]
    have "fst ` set (municipalities c1) \<subseteq> fst ` set (municipalities conn')" by simp
    from this Cons.prems(2)
    have "fst ` set (municipalities c1) \<subseteq> fst ` set (municipalities t)" by (rule order_trans)
    with c1 have "ensure_municipality_exists t ?c pc
        (dict_get_default r ''municipality_name'' (PStr [])) = Inr t"
      by (rule ensure_municipality_exists_again)
    moreover from rest Cons.prems(2) have "ensure_municipalities t (?c # seen) records pc = Inr t"
      by (rule Cons.IH)
    ultimately show ?thesis using True by (simp add: Let_def)
  next
    case False
    with Cons.prems(1) have "ensure_municipalities conn seen records pc = Inr conn'"
      by (auto simp: Let_def)
    from this Cons.prems(2) have "ensure_municipalities t seen records pc = Inr t"
      by (rule Cons.IH)
    with False show ?thesis by (auto simp: Let_def)
  qed
qed

lemma ensure_municipalities_canonical:
  "\<forall>r\<in>set records. canonical r \<Longrightarrow> \<exists>conn'. ensure_municipalities conn seen records pc = Inr conn'"
proof (induction records arbitrary: conn seen)
  case Nil
  then show ?case by simp
next
  case (Cons r records)
  let ?c = "dict_get r ''municipality_code''"
  from Cons.prems have "canonical r" by simp
  then have "\<exists>c1. ensure_municipality_exists conn ?c pc
      (dict_get_default r ''municipality_name'' (PStr [])) = Inr c1"
    by (auto simp: canonical_def ensure_municipality_exists_def len_of_def split: pyval.splits)
  then obtain c1 where c1: "ensure_municipality_exists conn ?c pc
      (dict_get_default r ''municipality_name'' (PStr [])) = Inr c1" ..
  from Cons.prems have rest: "\<forall>r\<in>set records. canonical r" by simp
  from Cons.IH [OF rest, of c1 "?c # seen"] Cons.IH [OF rest, of conn seen] c1
  show ?case by (auto simp: Let_def)
qed

lemma insert_prefix:
  "insert_on_conflict_do_nothing table rows = (t, n) \<Longrightarrow> \<exists>new. t = table @ new"
proof (induction rows arbitrary: table t n)
  case Nil
  then show ?case by simp
next
  case (Cons r rows)
  show ?case
  proof (cases "conflicts table r")
    case True
    with Cons.prems have "insert_on_conflict_do_nothing table rows = (t, n)" by simp
    then show ?thesis by (rule Cons.IH)
  next
    case False
    with Cons.prems obtain m where "insert_on_conflict_do_nothing (table @ [r]) rows = (t, m)"
      by (auto split: prod.splits)
    from Cons.IH [OF this] show ?thesis by auto
  qed
qed

lemma insert_covers:
  "insert_on_conflict_do_nothing table rows = (t, n) \<Longrightarrow> r \<in> set rows \<Longrightarrow>
   source_hash_of r \<noteq> PNone \<Longrightarrow> source_hash_of r \<in> source_hash_of ` set t"
proof (induction rows arbitrary: table t n)
  case Nil
  then show ?case by simp
next
  case (Cons x rows)
  show ?case
  proof (cases "conflicts table x")
    case True
    with Cons.prems(1) have rest: "insert_on_conflict_do_nothing table rows = (t, n)" by simp
    show ?thesis
    proof (cases "r = x")
      case True
      from insert_prefix [OF rest] obtain new where "t = table @ new" ..
      with \<open>conflicts table x\<close> True show ?thesis by (auto simp: conflicts_def)
    next
      case False
      with Cons.prems(2) have "r \<in> set rows" by simp
      from Cons.IH [OF rest this Cons.prems(3)] show ?thesis .
    qed
  next
    case False
    with Cons.prems(1) obtain m where
      rest: "insert_on_conflict_do_nothing (table @ [x]) rows = (t, m)"
      by (auto split: prod.splits)
    show ?thesis
    proof (cases "r = x")
      case True
      from insert_prefix [OF rest] obtain new where "t = (table @ [x]) @ new" ..
      with True show ?thesis by auto
    next
      case False
      with Cons.prems(2) have "r \<in> set rows" by simp
      from Cons.IH [OF rest this Cons.prems(3)] show ?thesis .
    qed
  qed
qed

lemma insert_all_conflict:
  "\<forall>r\<in>set rows. conflicts table r \<Longrightarrow> insert_on_conflict_do_nothing table rows = (table, 0)"
  by (induction rows) auto


lemma paginate_Nil: "paginate n [] = []"
  by (subst paginate.simps) simp

lemma paginate_single: "0 < n \<Longrightarrow> xs \<noteq> [] \<Longrightarrow> length xs \<le> n \<Longrightarrow> paginate n xs = [xs]"
  by (subst paginate.simps) (simp add: paginate_Nil)

lemma paginate_nonempty: "0 < n \<Longrightarrow> xs \<noteq> [] \<Longrightarrow> paginate n xs \<noteq> []"
  by (subst paginate.simps) simp

lemma paginate_rows: "p \<in> set (paginate n xs) \<Longrightarrow> set p \<subseteq> set xs"
proof (induction n xs rule: paginate.induct)
  case (1 page_size seq)
  show ?case
  proof (cases "page_size = 0 \<or> seq = []")
    case True
    with "1.prems" show ?thesis by (subst (asm) paginate.simps) simp
  next
    case False
    with "1.prems" consider "p = take page_size seq"
      | "p \<in> set (paginate page_size (drop page_size seq))"
      by (subst (asm) paginate.simps) auto
    then show ?thesis
    proof cases
      case 1
      then show ?thesis by (simp add: set_take_subset)
    next
      case 2
      with "1.IH" [OF False] have "set p \<subseteq> set (drop page_size seq)" by simp
      also have "\<dots> \<subseteq> set seq" by (rule set_drop_subset)
      finally show ?thesis .
    qed
  qed
qed

lemma paginate_concat: "0 < n \<Longrightarrow> concat (paginate n xs) = xs"
proof (induction n xs rule: paginate.induct)
  case (1 page_size seq)
  show ?case
  proof (cases "seq = []")
    case True
    then show ?thesis by (simp add: paginate_Nil)
  next
    case False
    with "1.prems" have "paginate page_size seq =
        take page_size seq # paginate page_size (drop page_size seq)"
      by (subst paginate.simps) simp
    moreover from "1.IH" False "1.prems"
    have "concat (paginate page_size (drop page_size seq)) = drop page_size seq" by simp
    ultimately show ?thesis by simp
  qed
qed

text \<open>The statements of the pages, run one after the other.\<close>

lemma run_pages_prefix:
  "foldl (\<lambda>cur page. insert_on_conflict_do_nothing (fst cur) page) (table, c) pages = (t, n) \<Longrightarrow>
   \<exists>new. t = table @ new"
proof (induction pages arbitrary: table c)
  case Nil
  then show ?case by simp
next
  case (Cons p pages)
  obtain t1 n1 where p: "insert_on_conflict_do_nothing table p = (t1, n1)"
    by (cases "insert_on_conflict_do_nothing table p")
  with Cons.prems have
    "foldl (\<lambda>cur page. insert_on_conflict_do_nothing (fst cur) page) (t1, n1) pages = (t, n)"
    by simp
  from Cons.IH [OF this] insert_prefix [OF p] show ?case by auto
qed

lemma run_pages_covers:
  "foldl (\<lambda>cur page. insert_on_conflict_do_nothing (fst cur) page) (table, c) pages = (t, n) \<Longrightarrow>
   p \<in> set pages \<Longrightarrow> r \<in> set p \<Longrightarrow> source_hash_of r \<noteq> PNone \<Longrightarrow>
   source_hash_of r \<in> source_hash_of ` set t"
proof (induction pages arbitrary: table c)
  case Nil
  then show ?case by simp
next
  case (Cons q pages)
  obtain t1 n1 where q: "insert_on_conflict_do_nothing table q = (t1, n1)"
    by (cases "insert_on_conflict_do_nothing table q")
  with Cons.prems(1) have rest:
    "foldl (\<lambda>cur page. insert_on_conflict_do_nothing (fst cur) page) (t1, n1) pages = (t, n)"
    by simp
  show ?case
  proof (cases "p = q")
    case True
    with q Cons.prems(3,4) have "source_hash_of r \<in> source_hash_of ` set t1"
      by (auto intro: insert_covers)
    moreover from run_pages_prefix [OF rest] obtain new where "t = t1 @ new" ..
    ultimately show ?thesis by auto
  next
    case False
    with Cons.prems(2) have "p \<in> set pages" by simp
    from Cons.IH [OF rest this Cons.prems(3,4)] show ?thesis .
  qed
qed

lemma run_pages_all_conflict:
  "\<forall>p\<in>set pages. \<forall>r\<in>set p. conflicts table r \<Longrightarrow>
   foldl (\<lambda>cur page. insert_on_conflict_do_nothing (fst cur) page) (table, c) pages =
     (table, if pages = [] then c else 0)"
  by (induction pages arbitrary: c) (simp_all add: insert_all_conflict)


lemma source_hash_of_row: "source_hash_of (row_of r) = dict_get r ''source_hash''"
  by (simp add: row_of_def columns_def source_hash_of_def)

lemma canonical_hash: "canonical r \<Longrightarrow> source_hash_of (row_of r) \<noteq> PNone"
  by (auto simp: source_hash_of_row canonical_def split: pyval.splits)

lemma insert_count:
  "\<forall>r\<in>set rows. source_hash_of r \<noteq> PNone \<Longrightarrow>
   snd (insert_on_conflict_do_nothing table rows) =
     int (card (source_hash_of ` set rows - source_hash_of ` set table))"
proof (induction rows arbitrary: table)
  case Nil
  then show ?case by simp
next
  case (Cons r rows)
  let ?H = "source_hash_of ` set rows" and ?T = "source_hash_of ` set table"
  from Cons.prems have rest: "\<forall>r\<in>set rows. source_hash_of r \<noteq> PNone"
    and r: "source_hash_of r \<noteq> PNone" by simp_all
  show ?case
  proof (cases "conflicts table r")
    case True
    then have "source_hash_of r \<in> ?T" by (simp add: conflicts_def)
    then have "source_hash_of ` set (r # rows) - ?T = ?H - ?T" by auto
    with True Cons.IH [OF rest, of table] show ?thesis by simp
  next
    case False
    with r have notin: "source_hash_of r \<notin> ?T" by (simp add: conflicts_def)
    have eq: "source_hash_of ` set (r # rows) - ?T =
        insert (source_hash_of r) (?H - source_hash_of ` set (table @ [r]))"
      using notin by auto
    have "source_hash_of r \<notin> ?H - source_hash_of ` set (table @ [r])" by simp
    moreover have "finite (?H - source_hash_of ` set (table @ [r]))" by simp
    ultimately have "card (insert (source_hash_of r) (?H - source_hash_of ` set (table @ [r]))) =
        Suc (card (?H - source_hash_of ` set (table @ [r])))"
      by (rule card_insert_disjoint [rotated])
    with eq have "card (source_hash_of ` set (r # rows) - ?T) =
        Suc (card (?H - source_hash_of ` set (table @ [r])))"
      by (simp only:)
    with False Cons.IH [OF rest, of "table @ [r]"] show ?thesis
      by (simp add: split_beta)
  qed
qed

text \<open>
  Claim C1. When a list of records that all carry a \<^verbatim>\<open>source_hash\<close> has been loaded,
  loading the same list again into the store that the first call left returns 0 and
  leaves that store as it is, so the row count is the one after the first call. The
  first call itself only appends to the table: the rows that were there stay in place,
  unchanged. For canonical records the first call does succeed.
\<close>

theorem insert_transactions_idempotent:
  "((\<forall>r\<in>set records. dict_get r ''source_hash'' \<noteq> PNone) \<and>
    insert_transactions conn records pc = Inr (n1, conn1) \<longrightarrow>
      insert_transactions conn1 records pc = Inr (0, conn1) \<and>
      (\<exists>new. transactions conn1 = transactions conn @ new)) \<and>
   ((\<forall>r\<in>set records. canonical r) \<longrightarrow>
      (\<exists>n conn'. insert_transactions conn records pc = Inr (n, conn')))"
proof -
  have succeeds: "\<exists>n conn'. insert_transactions conn records pc = Inr (n, conn')"
    if "\<forall>r\<in>set records. canonical r"
  proof -
    from ensure_municipalities_canonical [OF that] obtain conn' where
      "ensure_municipalities conn [] records pc = Inr conn'" by blast
    then show ?thesis by (auto simp: insert_transactions_def split: prod.splits)
  qed
  have again: "insert_transactions conn1 records pc = Inr (0, conn1) \<and>
      (\<exists>new. transactions conn1 = transactions conn @ new)"
    if hashes: "\<forall>r\<in>set records. dict_get r ''source_hash'' \<noteq> PNone"
      and first: "insert_transactions conn records pc = Inr (n1, conn1)"
  proof (cases "records = []")
    case True
    with first show ?thesis by (simp add: insert_transactions_def)
  next
    case False
    let ?rows = "map row_of records"
    let ?step = "\<lambda>cur page. insert_on_conflict_do_nothing (fst cur) page"
    from first False obtain conn' t where
      e: "ensure_municipalities conn [] records pc = Inr conn'"
      and x: "execute_values (transactions conn') ?rows 1000 = (t, n1)"
      and conn1: "conn1 = conn'\<lparr>transactions := t\<rparr>"
      by (auto simp: insert_transactions_def split: sum.splits prod.splits)
    from x have run: "foldl ?step (transactions conn', - 1) (paginate 1000 ?rows) = (t, n1)"
      by (simp add: execute_values_def)
    have "fst ` set (municipalities conn') \<subseteq> fst ` set (municipalities conn1)"
      by (simp add: conn1)
    with e have e2: "ensure_municipalities conn1 [] records pc = Inr conn1"
      by (rule ensure_municipalities_again)
    have "\<forall>p\<in>set (paginate 1000 ?rows). \<forall>r\<in>set p. conflicts t r"
    proof (intro ballI)
      fix p r assume p: "p \<in> set (paginate 1000 ?rows)" and r: "r \<in> set p"
      from paginate_rows [OF p] r have "r \<in> set ?rows" by blast
      with hashes have "source_hash_of r \<noteq> PNone" by (auto simp: source_hash_of_row)
      with run_pages_covers [OF run p r] show "conflicts t r" by (simp add: conflicts_def)
    qed
    then have "foldl ?step (t, - 1) (paginate 1000 ?rows) =
        (t, if paginate 1000 ?rows = [] then - 1 else 0)"
      by (rule run_pages_all_conflict)
    moreover from False have "paginate 1000 ?rows \<noteq> []" by (intro paginate_nonempty) simp_all
    ultimately have x2: "execute_values (transactions conn1) ?rows 1000 = (t, 0)"
      by (simp add: execute_values_def conn1)
    from False e2 x2 have "insert_transactions conn1 records pc = Inr (0, conn1)"
      by (simp add: insert_transactions_def conn1)
    moreover from ensure_municipalities_mono [OF e] run_pages_prefix [OF run]
    have "\<exists>new. transactions conn1 = transactions conn @ new" by (simp add: conn1)
    ultimately show ?thesis by (rule conjI)
  qed
  from succeeds again show ?thesis by blast
qed

lemma canonical_listings: "canonical listing_a" "canonical listing_b"
  by (simp_all add: canonical_def dict_get_def listing_a_def listing_b_def)

lemma listing_hashes:
  "dict_get listing_a ''source_hash'' = PStr ''52b0a2bde7cb223071a156a93c774c92''"
  "dict_get listing_b ''source_hash'' = PStr ''2a43b7581517f4d46a698508d8388f09''"
  by (simp_all add: dict_get_def listing_a_def listing_b_def)

lemma listing_codes:
  "dict_get listing_a ''municipality_code'' = PStr ''13101''"
  "dict_get listing_b ''municipality_code'' = PNone"
  "dict_get_default listing_a ''municipality_name'' (PStr []) = PStr ''Chiyoda Ward''"
  by (simp_all add: dict_get_def dict_get_default_def listing_a_def listing_b_def)

lemma insert_transactions_two_listings:
  "insert_transactions empty_store [listing_a, listing_b] ''13'' =
     Inr (2, \<lparr>municipalities = [(PStr ''13101'', ''13'', PStr ''Chiyoda Ward'', PStr ''Chiyoda Ward'')],
              transactions = [row_of listing_a, row_of listing_b]\<rparr>)"
  by (simp add: insert_transactions_def empty_store_def listing_codes
      ensure_municipality_exists_def len_of_def py_len_def is_continuation_def
      execute_values_def paginate_single conflicts_def source_hash_of_row listing_hashes)

theorem insert_transactions_idempotent_witness:
  "dict_get listing_a ''source_hash'' \<noteq> PNone \<and> dict_get listing_b ''source_hash'' \<noteq> PNone \<and>
   canonical listing_a \<and> canonical listing_b \<and>
   (\<exists>conn1. insert_transactions empty_store [listing_a, listing_b] ''13'' = Inr (2, conn1) \<and>
      insert_transactions conn1 [listing_a, listing_b] ''13'' = Inr (0, conn1) \<and>
      length (transactions conn1) = 2)"
proof -
  let ?s = "\<lparr>municipalities = [(PStr ''13101'', ''13'', PStr ''Chiyoda Ward'', PStr ''Chiyoda Ward'')],
             transactions = [row_of listing_a, row_of listing_b]\<rparr>"
  have h: "\<forall>r\<in>set [listing_a, listing_b]. dict_get r ''source_hash'' \<noteq> PNone"
    by (simp add: listing_hashes)
  from insert_transactions_idempotent
    [of "[listing_a, listing_b]" empty_store "''13''" 2 ?s, THEN conjunct1]
    h insert_transactions_two_listings
  have "insert_transactions ?s [listing_a, listing_b] ''13'' = Inr (0, ?s)" by blast
  with insert_transactions_two_listings have
    "\<exists>conn1. insert_transactions empty_store [listing_a, listing_b] ''13'' = Inr (2, conn1) \<and>
      insert_transactions conn1 [listing_a, listing_b] ''13'' = Inr (0, conn1) \<and>
      length (transactions conn1) = 2"
    by (intro exI [of _ ?s]) simp
  with canonical_listings show ?thesis by (simp add: listing_hashes)
qed

text \<open>
  Claim C3, as the code has it. For a list of canonical records that fits one insert
  page (at most 1000 rows) the call succeeds, and the count returned is the number of
  distinct \<^verbatim>\<open>source_hash\<close> values of the list that were not in the table before the call.
\<close>

theorem insert_transactions_count:
  assumes "\<forall>r\<in>set records. canonical r" and "length records \<le> 1000"
  shows "\<exists>conn'. insert_transactions conn records pc =
      Inr (int (card ((\<lambda>r. dict_get r ''source_hash'') ` set records
                       - source_hash_of ` set (transactions conn))), conn')"
proof (cases "records = []")
  case True
  then show ?thesis by (simp add: insert_transactions_def)
next
  case False
  let ?rows = "map row_of records"
  from ensure_municipalities_canonical [OF assms(1)] obtain conn' where
    e: "ensure_municipalities conn [] records pc = Inr conn'" by blast
  from ensure_municipalities_mono [OF e] have tr: "transactions conn' = transactions conn" by simp
  from False assms(2) have "paginate 1000 ?rows = [?rows]" by (intro paginate_single) simp_all
  then have x: "execute_values (transactions conn') ?rows 1000 =
      insert_on_conflict_do_nothing (transactions conn) ?rows"
    by (simp add: execute_values_def tr)
  from assms(1) have "\<forall>r\<in>set ?rows. source_hash_of r \<noteq> PNone" by (auto simp: canonical_hash)
  from insert_count [OF this, of "transactions conn"]
  have "snd (insert_on_conflict_do_nothing (transactions conn) ?rows) =
      int (card ((\<lambda>r. dict_get r ''source_hash'') ` set records
                  - source_hash_of ` set (transactions conn)))"
    by (simp add: image_image source_hash_of_row)
  with False e x show ?thesis
    by (auto simp: insert_transactions_def split: prod.splits)
qed


theorem insert_transactions_count_witness:
  "canonical listing_a \<and> canonical listing_b \<and> length [listing_a, listing_b, listing_b] \<le> 1000 \<and>
   (\<exists>conn'. insert_transactions
      \<lparr>municipalities = [], transactions = [row_of listing_a]\<rparr>
      [listing_a, listing_b, listing_b] ''13'' = Inr (1, conn'))"
proof -
  have c: "\<forall>r\<in>set [listing_a, listing_b, listing_b]. canonical r"
    by (simp add: canonical_listings)
  have l: "length [listing_a, listing_b, listing_b] \<le> 1000" by simp
  from insert_transactions_count
    [OF c l, of "\<lparr>municipalities = [], transactions = [row_of listing_a]\<rparr>" "''13''"]
  have "\<exists>conn'. insert_transactions
      \<lparr>municipalities = [], transactions = [row_of listing_a]\<rparr>
      [listing_a, listing_b, listing_b] ''13'' = Inr (1, conn')"
    by (simp add: source_hash_of_row listing_hashes)
  with canonical_listings l show ?thesis by blast
qed

text \<open>
  Claim C3 as stated fails: a list that holds the same new record twice has two input
  rows whose \<^verbatim>\<open>source_hash\<close> was not in the store before the call, and the count returned
  is 1, since the second row conflicts with the first.
\<close>

theorem insert_transactions_duplicate_input:
  "insert_transactions empty_store [listing_a, listing_a] ''13'' =
     Inr (1, \<lparr>municipalities = [(PStr ''13101'', ''13'', PStr ''Chiyoda Ward'', PStr ''Chiyoda Ward'')],
              transactions = [row_of listing_a]\<rparr>) \<and>
   length (filter (\<lambda>r. dict_get r ''source_hash'' \<notin> source_hash_of ` set (transactions empty_store))
             [listing_a, listing_a]) = 2"
  by (simp add: insert_transactions_def empty_store_def listing_codes
      ensure_municipality_exists_def len_of_def py_len_def is_continuation_def
      execute_values_def paginate_single conflicts_def source_hash_of_row listing_hashes)


text \<open>
  The records that the pipeline loads are canonical: they are the results of
  \<^verbatim>\<open>transform_record\<close>.
\<close>

lemma transform_record_canonical:
  assumes "transform_record fl record prefecture_code year quarter = Inr out"
  shows "canonical out"
proof -
  let ?m = "dict_get_default record ''MunicipalityCode'' (PStr [])"
  from assms obtain mc where
    mc: "(if truthy ?m then bind_err (len_of ?m) (\<lambda>n. Inr (if n = 5 then ?m else PNone))
          else Inr PNone) = Inr mc"
    and out: "dict_get out ''source_hash'' = PStr (generate_record_hash fl record)"
      "dict_get out ''municipality_code'' = mc"
    unfolding transform_record_def bind_err_def Let_def
    by (auto simp: dict_get_def split: sum.splits)
  from mc have "mc = PNone \<or> (\<exists>c. mc = PStr c)"
    by (auto simp: bind_err_def len_of_def split: if_splits pyval.splits)
  with out show ?thesis by (auto simp: canonical_def)
qed

text \<open>
  Beyond one page the count is that of the last page alone. With 1000 rows in the
  first page and the rest in the second, the rows of the first page are inserted and
  not counted.
\<close>

lemma insert_hashes:
  "\<forall>r\<in>set rows. source_hash_of r \<noteq> PNone \<Longrightarrow>
   source_hash_of ` set (fst (insert_on_conflict_do_nothing table rows)) =
     source_hash_of ` set table \<union> source_hash_of ` set rows"
proof (induction rows arbitrary: table)
  case Nil
  then show ?case by simp
next
  case (Cons r rows)
  from Cons.prems have rest: "\<forall>r\<in>set rows. source_hash_of r \<noteq> PNone" by simp
  show ?case
  proof (cases "conflicts table r")
    case True
    then have "source_hash_of r \<in> source_hash_of ` set table" by (simp add: conflicts_def)
    with True Cons.IH [OF rest, of table] show ?thesis by auto
  next
    case False
    with Cons.IH [OF rest, of "table @ [r]"] show ?thesis by (auto simp: split_beta)
  qed
qed

lemma paginate_two:
  assumes "length xs = n" "0 < n" "ys \<noteq> []" "length ys \<le> n"
  shows "paginate n (xs @ ys) = [xs, ys]"
proof -
  from assms have "xs @ ys \<noteq> []" by simp
  with assms(2) have "paginate n (xs @ ys) = take n (xs @ ys) # paginate n (drop n (xs @ ys))"
    by (subst paginate.simps) simp
  with assms show ?thesis by (simp add: paginate_single)
qed

lemma insert_transactions_last_page:
  assumes "\<forall>r\<in>set (xs @ ys). canonical r" "length xs = 1000" "ys \<noteq> []" "length ys \<le> 1000"
  shows "\<exists>conn'. insert_transactions conn (xs @ ys) pc =
      Inr (int (card ((\<lambda>r. dict_get r ''source_hash'') ` set ys
                       - (\<lambda>r. dict_get r ''source_hash'') ` set xs
                       - source_hash_of ` set (transactions conn))), conn')"
proof -
  let ?X = "map row_of xs" and ?Y = "map row_of ys"
  from ensure_municipalities_canonical [OF assms(1)] obtain conn' where
    e: "ensure_municipalities conn [] (xs @ ys) pc = Inr conn'" by blast
  from ensure_municipalities_mono [OF e] have tr: "transactions conn' = transactions conn" by simp
  from assms have "paginate 1000 (?X @ ?Y) = [?X, ?Y]" by (intro paginate_two) simp_all
  then have x: "execute_values (transactions conn') (map row_of (xs @ ys)) 1000 =
      insert_on_conflict_do_nothing
        (fst (insert_on_conflict_do_nothing (transactions conn) ?X)) ?Y"
    by (simp add: execute_values_def tr)
  from assms(1) have nn: "\<forall>r\<in>set ?X. source_hash_of r \<noteq> PNone"
    "\<forall>r\<in>set ?Y. source_hash_of r \<noteq> PNone"
    by (auto simp: canonical_hash)
  from insert_count [OF nn(2), of "fst (insert_on_conflict_do_nothing (transactions conn) ?X)"]
    insert_hashes [OF nn(1), of "transactions conn"]
  have "snd (insert_on_conflict_do_nothing
        (fst (insert_on_conflict_do_nothing (transactions conn) ?X)) ?Y) =
      int (card ((\<lambda>r. dict_get r ''source_hash'') ` set ys
                       - (\<lambda>r. dict_get r ''source_hash'') ` set xs
                       - source_hash_of ` set (transactions conn)))"
    by (simp add: image_image source_hash_of_row Diff_eq Int_commute Int_left_commute Un_commute)
  with assms(3) e x show ?thesis
    by (auto simp: insert_transactions_def split: prod.splits)
qed

lemma insert_transactions_second_page_example:
  "\<exists>conn'. insert_transactions empty_store (replicate 1000 listing_a @ [listing_b]) ''13'' =
      Inr (1, conn')"
proof -
  have "\<forall>r\<in>set (replicate 1000 listing_a @ [listing_b]). canonical r"
    by (auto simp: canonical_listings)
  from insert_transactions_last_page [OF this, of empty_store "''13''"]
  show ?thesis by (simp add: listing_hashes empty_store_def)
qed

section \<open>Request pacing\<close>

lemma spaced_Cons:
  "spaced d (t # ts) \<longleftrightarrow> (ts = [] \<or> t + d \<le> hd ts) \<and> spaced d ts"
  by (cases ts) auto

lemma load_quarter_clock:
  "load_quarter fl s result prefecture_code year quarter = (inserted, s') \<Longrightarrow>
   sent_at s' = sent_at s \<and> now s' = now s"
  by (auto simp: load_quarter_def split: sum.splits option.splits if_splits prod.splits)

lemma ingest_quarters_pacing:
  assumes "\<forall>n. 0 \<le> elapsed n"
    and "ingest_quarters fl srv elapsed s prefecture_code year quarters tot = (tot', s')"
  shows "\<exists>new. sent_at s' = sent_at s @ new \<and> length new = length quarters \<and>
      spaced MIN_REQUEST_INTERVAL new \<and> (\<forall>t\<in>set new. now s \<le> t) \<and>
      (new \<noteq> [] \<longrightarrow> hd new = now s \<and> last new + MIN_REQUEST_INTERVAL \<le> now s') \<and>
      now s \<le> now s'"
  using assms(2)
proof (induction quarters arbitrary: s tot)
  case Nil
  then show ?case by simp
next
  case (Cons quarter quarters)
  obtain result s1 where g:
    "client_get_transactions srv elapsed s year prefecture_code quarter = (result, s1)"
    by (cases "client_get_transactions srv elapsed s year prefecture_code quarter")
  then have s1: "sent_at s1 = sent_at s @ [now s]"
    "now s1 = now s + elapsed (length (sent_at s))"
    by (auto simp: client_get_transactions_def)
  obtain inserted s2 where l: "load_quarter fl s1 result prefecture_code year quarter = (inserted, s2)"
    by (cases "load_quarter fl s1 result prefecture_code year quarter")
  from load_quarter_clock [OF l] have s2: "sent_at s2 = sent_at s1" "now s2 = now s1" by simp_all
  from Cons.prems g l have
    rest: "ingest_quarters fl srv elapsed (sleep MIN_REQUEST_INTERVAL s2) prefecture_code year
        quarters (tot + inserted) = (tot', s')"
    by simp
  let ?s3 = "sleep MIN_REQUEST_INTERVAL s2"
  from s1 s2 assms(1) have s3: "sent_at ?s3 = sent_at s @ [now s]"
    "now s + MIN_REQUEST_INTERVAL \<le> now ?s3"
    by (simp_all add: sleep_def)
  from Cons.IH [OF rest] obtain new where new:
    "sent_at s' = sent_at ?s3 @ new" "length new = length quarters"
    "spaced MIN_REQUEST_INTERVAL new" "\<forall>t\<in>set new. now ?s3 \<le> t"
    "new \<noteq> [] \<longrightarrow> hd new = now ?s3 \<and> last new + MIN_REQUEST_INTERVAL \<le> now s'"
    "now ?s3 \<le> now s'"
    by blast
  have pos: "0 \<le> MIN_REQUEST_INTERVAL"
    by (simp add: MIN_REQUEST_INTERVAL_def REQUESTS_PER_SECOND_def)
  have "sent_at s' = sent_at s @ (now s # new)" using new(1) s3(1) by simp
  moreover have "length (now s # new) = length (quarter # quarters)" using new(2) by simp
  moreover have "spaced MIN_REQUEST_INTERVAL (now s # new)"
    using new(3,5) s3(2) by (auto simp: spaced_Cons)
  moreover have "\<forall>t\<in>set (now s # new). now s \<le> t" using new(4) s3(2) pos by auto
  moreover have "hd (now s # new) = now s \<and> last (now s # new) + MIN_REQUEST_INTERVAL \<le> now s'"
    using new(5,6) s3(2) by auto
  moreover have "now s \<le> now s'" using new(6) s3(2) pos by simp
  ultimately show ?case by blast
qed


text \<open>
  Claim C8, as the code has it. The client has no limiter: \<^verbatim>\<open>get_transactions\<close> sends its
  request at the moment it is called, whatever was sent before. The pacing is a sleep
  in the caller: each iteration of the loop of \<^verbatim>\<open>ingest_prefecture_year\<close> ends with a sleep
  of \<^verbatim>\<open>MIN_REQUEST_INTERVAL\<close>, half a second. So the requests of one call of
  \<^verbatim>\<open>ingest_prefecture_year\<close> are at least half a second apart, the first of them is sent
  at once, and half a second has passed since the last when the call returns.
\<close>

theorem ingest_prefecture_year_pacing:
  assumes "\<forall>n. 0 \<le> elapsed n"
    and "ingest_prefecture_year fl srv elapsed s prefecture_code year quarters = (tot, s')"
  shows
    "(\<exists>new. sent_at s' = sent_at s @ new \<and> spaced MIN_REQUEST_INTERVAL new \<and>
        (new \<noteq> [] \<longrightarrow> hd new = now s \<and> last new + MIN_REQUEST_INTERVAL \<le> now s')) \<and>
     MIN_REQUEST_INTERVAL = 1 / 2 \<and>
     sent_at (snd (client_get_transactions srv elapsed s y area q)) = sent_at s @ [now s] \<and>
     now (snd (client_get_transactions srv elapsed s y area q)) =
       now s + elapsed (length (sent_at s))"
proof -
  from assms(2) ingest_quarters_pacing [OF assms(1)]
  have "\<exists>new. sent_at s' = sent_at s @ new \<and> spaced MIN_REQUEST_INTERVAL new \<and>
        (new \<noteq> [] \<longrightarrow> hd new = now s \<and> last new + MIN_REQUEST_INTERVAL \<le> now s')"
    unfolding ingest_prefecture_year_def by blast
  moreover have "MIN_REQUEST_INTERVAL = 1 / 2"
    by (simp add: MIN_REQUEST_INTERVAL_def REQUESTS_PER_SECOND_def)
  ultimately show ?thesis by (simp add: client_get_transactions_def)
qed

lemma ingest_no_data_year:
  "ingest_prefecture_year example_floats no_data_server quick fresh_run ''13'' 2023 None =
     (0, \<lparr>db = empty_store, now = 52 / 25, sent_at = [0, 13 / 25, 26 / 25, 39 / 25]\<rparr>)"
  by (simp add: ingest_prefecture_year_def client_get_transactions_def load_quarter_def
      get_transactions_def no_data_server_def quick_def fresh_run_def sleep_def
      MIN_REQUEST_INTERVAL_def REQUESTS_PER_SECOND_def)

theorem ingest_prefecture_year_pacing_witness:
  "ingest_prefecture_year example_floats no_data_server quick fresh_run ''13'' 2023 None =
     (0, \<lparr>db = empty_store, now = 52 / 25, sent_at = [0, 13 / 25, 26 / 25, 39 / 25]\<rparr>) \<and>
   spaced MIN_REQUEST_INTERVAL [0, 13 / 25, 26 / 25, 39 / 25] \<and>
   39 / 25 + MIN_REQUEST_INTERVAL \<le> (52 / 25 :: rat)"
proof -
  have q: "\<forall>n. 0 \<le> quick n" by (simp add: quick_def)
  from ingest_prefecture_year_pacing [OF q ingest_no_data_year]
  have "spaced MIN_REQUEST_INTERVAL [0, 13 / 25, 26 / 25, 39 / 25] \<and>
      39 / 25 + MIN_REQUEST_INTERVAL \<le> (52 / 25 :: rat)"
    by (simp add: fresh_run_def)
  with ingest_no_data_year show ?thesis by simp
qed

text \<open>
  Claim C8 as stated fails: two calls of the client, one after the other, send their
  requests 20 ms apart when the first takes 20 ms. Nothing in the client waits.
\<close>

theorem client_get_transactions_no_spacing:
  "sent_at (snd (client_get_transactions no_data_server quick
      (snd (client_get_transactions no_data_server quick fresh_run 2023 ''13'' 1))
      2023 ''13'' 2)) = [0, 1 / 50] \<and>
   \<not> spaced MIN_REQUEST_INTERVAL [0, 1 / 50]"
  by (simp add: client_get_transactions_def quick_def fresh_run_def
      MIN_REQUEST_INTERVAL_def REQUESTS_PER_SECOND_def)

end
